theory Spec2Isabelle
  imports Main "HOL-Library.Char_ord" "HOL-Library.List_Lexorder" "HOL-Library.Multiset"
begin

section \<open>Common types\<close>

text \<open>
  Go strings are byte sequences; \<open>string\<close> (a list of 8-bit characters) models them.
  A \<open>*paths.Path\<close> is a pointer to a struct holding one string; the nil pointer is
  \<open>None\<close>.
\<close>

type_synonym path = string

datatype error =
    NilPointerDereference
  | IndexOutOfRange
  | StatError path
  | ReadError path
  | MarshalError
  | WriteError path
  | PatternMissing string
  | SplitQuotedError string
  | ExecError string
  | PreprocError
  | InternalCacheError
  | FindFilesError
  | MakeSourceFileError

section \<open>The include-discovery journal (legacy/builder/container_find_includes.go)\<close>

record includeCacheEntry =
  Sourcefile :: "path option"
  Include :: string
  Includepath :: "path option"

text \<open>
  \<open>fmt.Sprintf\<close> with the verb \<open>%s\<close> calls \<open>(*Path).String\<close>, which returns the
  path string; on a nil pointer the call panics inside \<open>fmt\<close>, which prints \<open><nil>\<close>.
\<close>

fun fmt_path :: "path option \<Rightarrow> string" where
  "fmt_path None = ''<nil>''"
| "fmt_path (Some p) = p"

definition entry_String :: "includeCacheEntry \<Rightarrow> string" where
  "entry_String entry =
     ''SourceFile: '' @ fmt_path (Sourcefile entry) @ ''; Include: '' @ Include entry
       @ ''; IncludePath: '' @ fmt_path (Includepath entry)"

definition Equals :: "includeCacheEntry \<Rightarrow> includeCacheEntry \<Rightarrow> bool" where
  "Equals entry other = (entry_String entry = entry_String other)"

text \<open>
  \<open>(*Path).EqualsTo\<close> compares the two path strings; it reads a field of the receiver
  and of the argument, so a nil pointer on either side is a run-time panic.
\<close>

fun EqualsTo :: "path option \<Rightarrow> path option \<Rightarrow> error + bool" where
  "EqualsTo (Some p) (Some q) = Inr (p = q)"
| "EqualsTo _ _ = Inl NilPointerDereference"

record includeCache =
  valid :: bool
  "next" :: nat
  entries :: "includeCacheEntry list"

definition Next :: "includeCache \<Rightarrow> error + includeCacheEntry" where
  "Next cache =
     (if next cache < length (entries cache) then Inr (entries cache ! next cache)
      else Inl IndexOutOfRange)"

text \<open>
  The two assignments \<open>cache.valid = false; cache.entries = cache.entries[:cache.next]\<close>
  that the three operations share. \<open>next \<le> len(entries)\<close> holds in every reachable
  state (lemma \<open>step_cache_ok\<close>), so the slice expression never fails.
\<close>

definition invalidate :: "includeCache \<Rightarrow> includeCache" where
  "invalidate cache = cache\<lparr>valid := False, entries := take (next cache) (entries cache)\<rparr>"

definition ExpectFile :: "includeCache \<Rightarrow> path option \<Rightarrow> error + includeCache" where
  "ExpectFile cache sourcefile =
     (if valid cache then
        (if next cache \<ge> length (entries cache) then Inr (invalidate cache)
         else (case Next cache of
                 Inl e \<Rightarrow> Inl e
               | Inr n \<Rightarrow>
                   (case EqualsTo (Sourcefile n) sourcefile of
                      Inl e \<Rightarrow> Inl e
                    | Inr same \<Rightarrow> if \<not> same then Inr (invalidate cache) else Inr cache)))
      else Inr cache)"

definition ExpectEntry ::
  "includeCache \<Rightarrow> path option \<Rightarrow> string \<Rightarrow> path option \<Rightarrow> includeCache" where
  "ExpectEntry cache sourcefile include librarypath =
     (let entry = \<lparr>Sourcefile = sourcefile, Include = include, Includepath = librarypath\<rparr>;
          cache1 =
            (if valid cache then
               (if next cache < length (entries cache)
                   \<and> Equals (entries cache ! next cache) entry
                then cache\<lparr>next := next cache + 1\<rparr>
                else invalidate cache)
             else cache)
      in if \<not> valid cache1 then cache1\<lparr>entries := entries cache1 @ [entry]\<rparr> else cache1)"

definition ExpectEnd :: "includeCache \<Rightarrow> includeCache" where
  "ExpectEnd cache =
     (if valid cache \<and> next cache < length (entries cache) then invalidate cache else cache)"


subsection \<open>A discovery run as a sequence of journal operations\<close>

datatype journal_op =
    OpExpectFile "path option"
  | OpExpectEntry "path option" string "path option"
  | OpExpectEnd

fun step :: "journal_op \<Rightarrow> includeCache \<Rightarrow> error + includeCache" where
  "step (OpExpectFile sf) cache = ExpectFile cache sf"
| "step (OpExpectEntry sf inc lp) cache = Inr (ExpectEntry cache sf inc lp)"
| "step OpExpectEnd cache = Inr (ExpectEnd cache)"


text \<open>All the states the cache goes through, the initial one first.\<close>

fun states :: "journal_op list \<Rightarrow> includeCache \<Rightarrow> includeCache list" where
  "states [] cache = [cache]"
| "states (op # ops) cache =
     cache # (case step op cache of Inl e \<Rightarrow> [] | Inr cache' \<Rightarrow> states ops cache')"

text \<open>The entries that the \<open>ExpectEntry\<close> calls of a sequence of operations construct.\<close>

fun new_entries :: "journal_op list \<Rightarrow> includeCacheEntry list" where
  "new_entries [] = []"
| "new_entries (OpExpectEntry sf inc lp # ops) =
     \<lparr>Sourcefile = sf, Include = inc, Includepath = lp\<rparr> # new_entries ops"
| "new_entries (_ # ops) = new_entries ops"

definition cache_ok :: "includeCache \<Rightarrow> bool" where
  "cache_ok cache = (next cache \<le> length (entries cache))"



text \<open>A small journal and a run over it, used to exercise the theorems.\<close>

definition demo_old :: "includeCacheEntry list" where
  "demo_old =
     [\<lparr>Sourcefile = None, Include = '''', Includepath = Some ''/core''\<rparr>,
      \<lparr>Sourcefile = Some ''/b/sketch.cpp'', Include = ''Lib.h'',
         Includepath = Some ''/lib/src''\<rparr>,
      \<lparr>Sourcefile = Some ''/b/sketch.cpp'', Include = '''', Includepath = None\<rparr>]"

definition demo_start :: includeCache where
  "demo_start = \<lparr>valid = True, next = 0, entries = demo_old\<rparr>"

definition demo_ops :: "journal_op list" where
  "demo_ops =
     [OpExpectEntry None '''' (Some ''/core''),
      OpExpectFile (Some ''/b/sketch.cpp''),
      OpExpectEntry (Some ''/b/sketch.cpp'') ''Other.h'' (Some ''/other/src''),
      OpExpectFile (Some ''/b/sketch.cpp''),
      OpExpectEntry (Some ''/b/sketch.cpp'') '''' None,
      OpExpectEnd]"

definition demo_final :: includeCache where
  "demo_final =
     \<lparr>valid = False, next = 1,
      entries =
        [\<lparr>Sourcefile = None, Include = '''', Includepath = Some ''/core''\<rparr>,
         \<lparr>Sourcefile = Some ''/b/sketch.cpp'', Include = ''Other.h'',
            Includepath = Some ''/other/src''\<rparr>,
         \<lparr>Sourcefile = Some ''/b/sketch.cpp'', Include = '''', Includepath = None\<rparr>]\<rparr>"


subsection \<open>Writing the journal back (\<open>writeCache\<close>)\<close>

type_synonym time = int

text \<open>
  The file-system calls a function makes, in order. \<open>writeCache\<close> calls
  \<open>path.Chtimes\<close> and \<open>path.WriteFile\<close> only; \<open>Rename\<close> is here to state
  what a write through a temporary file would look like.
\<close>

datatype fs_call =
    Chtimes path time time
  | WriteFile path string
  | Rename path path

text \<open>What a successful call does to the contents of the files.\<close>

fun contents_after :: "fs_call \<Rightarrow> (path \<rightharpoonup> string) \<Rightarrow> (path \<rightharpoonup> string)" where
  "contents_after (Chtimes p atime mtime) fs = fs"
| "contents_after (WriteFile p bytes) fs = fs(p \<mapsto> bytes)"
| "contents_after (Rename p q) fs =
     (case fs p of None \<Rightarrow> fs | Some bytes \<Rightarrow> (fs(p := None))(q \<mapsto> bytes))"

text \<open>
  \<open>writeCache\<close>. Inputs besides the cache and the path: \<open>json.MarshalIndent\<close> on the
  entry list, the error (if any) that \<open>path.WriteFile\<close> returns, and the two readings of
  \<open>time.Now()\<close>. The result of \<open>path.Chtimes\<close> is discarded by the source.
  Returns the calls made and the returned error (\<open>None\<close> is Go's nil).
\<close>

definition writeCache ::
  "(includeCacheEntry list \<Rightarrow> error + string) \<Rightarrow> error option \<Rightarrow> time \<Rightarrow> time
     \<Rightarrow> includeCache \<Rightarrow> path \<Rightarrow> fs_call list \<times> error option" where
  "writeCache MarshalIndent write_err now1 now2 cache path =
     (if valid cache then ([Chtimes path now1 now2], None)
      else
        (case MarshalIndent (entries cache) of
           Inl err \<Rightarrow> ([], Some err)
         | Inr bytes \<Rightarrow>
             (case write_err of
                Some err \<Rightarrow> ([WriteFile path bytes], Some err)
              | None \<Rightarrow> ([WriteFile path bytes], None))))"

text \<open>
  The spec's words for the invalidated case: the bytes are written to a temporary file,
  which is then renamed over the cache file.
\<close>

definition spec_atomic_write :: "path \<Rightarrow> string \<Rightarrow> fs_call list \<Rightarrow> bool" where
  "spec_atomic_write path bytes calls =
     (case calls of
        [WriteFile tmp written, Rename src dst] \<Rightarrow>
          tmp \<noteq> path \<and> written = bytes \<and> src = tmp \<and> dst = path
      | _ \<Rightarrow> False)"

text \<open>A stand-in for the JSON encoder, for concrete runs.\<close>

definition demo_MarshalIndent :: "includeCacheEntry list \<Rightarrow> error + string" where
  "demo_MarshalIndent es = Inr (concat (map (\<lambda>e. entry_String e @ ''; '') es))"

section \<open>Up-to-date check of an object file (package builder_utils, unnamed/part_004)\<close>

subsection \<open>String helpers of the Go standard library\<close>

definition HasSuffix :: "string \<Rightarrow> string \<Rightarrow> bool" where
  "HasSuffix s suffix =
     (length suffix \<le> length s \<and> drop (length s - length suffix) s = suffix)"


text \<open>
  \<open>strings.Replace(s, old, new, -1)\<close> for a two-byte \<open>old = [a, b]\<close>: every
  non-overlapping occurrence, scanning from the left.
\<close>

fun Replace2 :: "string \<Rightarrow> char \<Rightarrow> char \<Rightarrow> string \<Rightarrow> string" where
  "Replace2 (x # y # s) a b new =
     (if x = a \<and> y = b then new @ Replace2 s a b new else x # Replace2 (y # s) a b new)"
| "Replace2 s a b new = s"

text \<open>
  \<open>strings.TrimSpace\<close> removes leading and trailing runes with Unicode's White Space
  property. On the bytes of a Go string these are the UTF-8 encodings below (U+0009 to
  U+000D, U+0020, U+0085, U+00A0, U+1680, U+2000 to U+200A, U+2028, U+2029, U+202F, U+205F,
  U+3000).
\<close>

definition white_space :: "string list" where
  "white_space =
     [[CHR 0x09], [CHR 0x0A], [CHR 0x0B], [CHR 0x0C], [CHR 0x0D], [CHR 0x20],
      [CHR 0xC2, CHR 0x85], [CHR 0xC2, CHR 0xA0], [CHR 0xE1, CHR 0x9A, CHR 0x80],
      [CHR 0xE2, CHR 0x80, CHR 0x80], [CHR 0xE2, CHR 0x80, CHR 0x81],
      [CHR 0xE2, CHR 0x80, CHR 0x82], [CHR 0xE2, CHR 0x80, CHR 0x83],
      [CHR 0xE2, CHR 0x80, CHR 0x84], [CHR 0xE2, CHR 0x80, CHR 0x85],
      [CHR 0xE2, CHR 0x80, CHR 0x86], [CHR 0xE2, CHR 0x80, CHR 0x87],
      [CHR 0xE2, CHR 0x80, CHR 0x88], [CHR 0xE2, CHR 0x80, CHR 0x89],
      [CHR 0xE2, CHR 0x80, CHR 0x8A], [CHR 0xE2, CHR 0x80, CHR 0xA8],
      [CHR 0xE2, CHR 0x80, CHR 0xA9], [CHR 0xE2, CHR 0x80, CHR 0xAF],
      [CHR 0xE2, CHR 0x81, CHR 0x9F], [CHR 0xE3, CHR 0x80, CHR 0x80]]"

function trim_left :: "string list \<Rightarrow> string \<Rightarrow> string" where
  "trim_left ws s =
     (case find (\<lambda>w. w \<noteq> [] \<and> take (length w) s = w) ws of
        None \<Rightarrow> s
      | Some w \<Rightarrow> trim_left ws (drop (length w) s))"
  by pat_completeness auto
termination
proof (relation "measure (\<lambda>(ws, s). length s)")
  show "wf (measure (\<lambda>(ws, s). length s))" by simp
next
  fix ws :: "string list" and s w :: string
  assume "find (\<lambda>w. w \<noteq> [] \<and> take (length w) s = w) ws = Some w"
  then have w: "w \<noteq> []" and t: "take (length w) s = w"
    by (auto simp: find_Some_iff)
  from w t have "s \<noteq> []" by auto
  with w show "((ws, drop (length w) s), (ws, s)) \<in> measure (\<lambda>(ws, s). length s)"
    by (cases w; cases s) auto
qed

definition TrimSpace :: "string \<Rightarrow> string" where
  "TrimSpace s = rev (trim_left (map rev white_space) (rev (trim_left white_space s)))"

text \<open>\<open>strings.Trim(s, " ")\<close>: leading and trailing spaces removed.\<close>

definition Trim_spaces :: "string \<Rightarrow> string" where
  "Trim_spaces s =
     rev (dropWhile (\<lambda>c. c = CHR '' '') (rev (dropWhile (\<lambda>c. c = CHR '' '') s)))"

subsection \<open>Reading the dependency file\<close>

definition removeEndingBackSlash :: "string \<Rightarrow> string" where
  "removeEndingBackSlash s = (if HasSuffix s [CHR 0x5C] then take (length s - 1) s else s)"

definition unescapeDep :: "string \<Rightarrow> string" where
  "unescapeDep s =
     (let s1 = Replace2 s (CHR 0x5C) (CHR '' '') '' '';
          s2 = Replace2 s1 (CHR 0x5C) (CHR 0x09) [CHR 0x09];
          s3 = Replace2 s2 (CHR 0x5C) (CHR ''#'') ''#'';
          s4 = Replace2 s3 (CHR ''$'') (CHR ''$'') ''$'';
          s5 = Replace2 s4 (CHR 0x5C) (CHR 0x5C) [CHR 0x5C]
      in s5)"

text \<open>
  Modelled from the spec: the constant \<open>EMPTY_STRING\<close> of the constants package,
  which is not among the sources, is the empty string (the spec: empty rows are dropped).
\<close>

definition nonEmptyString :: "string \<Rightarrow> bool" where
  "nonEmptyString s = (s \<noteq> '''')"

text \<open>The four passes over the lines read from the dependency file.\<close>

definition dep_rows :: "string list \<Rightarrow> string list" where
  "dep_rows rows0 =
     filter nonEmptyString
       (map unescapeDep (map TrimSpace (map removeEndingBackSlash rows0)))"

subsection \<open>\<open>ObjFileIsUpToDate\<close>\<close>

text \<open>
  The outcome of \<open>os.Stat\<close>: the file information (of which only the modification time
  is read), an error for which \<open>os.IsNotExist\<close> holds, or any other error.
\<close>

datatype stat_result = Found time | NotExist | StatFails

text \<open>
  What the function reads from its surroundings: \<open>os.Stat\<close>, the lines of a file
  (\<open>None\<close> when reading fails) and \<open>(*Path).Clean\<close>.
\<close>

record os_env =
  Stat :: "path \<Rightarrow> stat_result"
  ReadFileAsLines :: "path \<Rightarrow> string list option"
  Clean :: "path \<Rightarrow> path"

text \<open>The loop over the rows after the first: each must exist and not be newer than the object.\<close>

fun deps_not_newer :: "os_env \<Rightarrow> time \<Rightarrow> string list \<Rightarrow> bool" where
  "deps_not_newer env objTime [] = True"
| "deps_not_newer env objTime (row # rows) =
     (case Stat env row of
        StatFails \<Rightarrow> False
      | NotExist \<Rightarrow> False
      | Found depTime \<Rightarrow> if depTime > objTime then False else deps_not_newer env objTime rows)"

text \<open>
  The result is Go's pair \<open>(bool, error)\<close>: \<open>Inr b\<close> for \<open>(b, nil)\<close>, \<open>Inl e\<close> for
  \<open>(false, e)\<close>. The index expression \<open>rows[1]\<close> panics when there is one row only;
  the panic is \<open>Inl IndexOutOfRange\<close>. Logging is left out.
\<close>

definition ObjFileIsUpToDate ::
  "os_env \<Rightarrow> path \<Rightarrow> path option \<Rightarrow> path option \<Rightarrow> error + bool" where
  "ObjFileIsUpToDate env sourceFile0 objectFile0 dependencyFile0 =
     (case (objectFile0, dependencyFile0) of
        (None, _) \<Rightarrow> Inr False
      | (_, None) \<Rightarrow> Inr False
      | (Some objectFile1, Some dependencyFile1) \<Rightarrow>
     (let sourceFile = Clean env sourceFile0 in
      case Stat env sourceFile of
        NotExist \<Rightarrow> Inl (StatError sourceFile)
      | StatFails \<Rightarrow> Inl (StatError sourceFile)
      | Found sourceTime \<Rightarrow>
     (let objectFile = Clean env objectFile1 in
      case Stat env objectFile of
        NotExist \<Rightarrow> Inr False
      | StatFails \<Rightarrow> Inl (StatError objectFile)
      | Found objTime \<Rightarrow>
     (let dependencyFile = Clean env dependencyFile1 in
      case Stat env dependencyFile of
        NotExist \<Rightarrow> Inr False
      | StatFails \<Rightarrow> Inl (StatError dependencyFile)
      | Found depTime \<Rightarrow>
      if sourceTime > objTime then Inr False
      else if sourceTime > depTime then Inr False
      else
        (case ReadFileAsLines env dependencyFile of
           None \<Rightarrow> Inl (ReadError dependencyFile)
         | Some rows0 \<Rightarrow>
        (let rows = dep_rows rows0 in
         if length rows = 0 then Inr True
         else
           (let firstRow = rows ! 0 in
            if \<not> HasSuffix firstRow '':'' then Inr False
            else
              (let objFileInDepFile = take (length firstRow - 1) firstRow in
               if objFileInDepFile \<noteq> objectFile then Inr False
               else if \<not> 1 < length rows then Inl IndexOutOfRange
               else if sourceFile \<noteq> Trim_spaces (rows ! 1) then Inr False
               else Inr (deps_not_newer env objTime (drop 1 rows))))))))))"

text \<open>
  The invariant of up-to-dateness in the spec's words: object and dependency file exist;
  the object is not older than the source nor than any dependency the dependency file lists
  (each of which exists); the first row is the object's path followed by a colon; the
  second row is the source path.
\<close>

definition spec_up_to_date :: "os_env \<Rightarrow> path \<Rightarrow> path \<Rightarrow> path \<Rightarrow> bool" where
  "spec_up_to_date env sourceFile objectFile dependencyFile =
     (case Stat env (Clean env objectFile) of
        Found objTime \<Rightarrow>
          (case Stat env (Clean env dependencyFile) of
             Found depTime \<Rightarrow>
               (case Stat env (Clean env sourceFile) of
                  Found sourceTime \<Rightarrow>
                    sourceTime \<le> objTime
                    \<and> (case ReadFileAsLines env (Clean env dependencyFile) of
                         Some rows0 \<Rightarrow>
                           (case dep_rows rows0 of
                              first # second # deps \<Rightarrow>
                                first = Clean env objectFile @ '':''
                                \<and> Trim_spaces second = Clean env sourceFile
                                \<and> list_all
                                     (\<lambda>row. case Stat env row of
                                               Found t \<Rightarrow> t \<le> objTime
                                             | _ \<Rightarrow> False)
                                     (second # deps)
                            | _ \<Rightarrow> False)
                       | None \<Rightarrow> False)
                | _ \<Rightarrow> False)
           | _ \<Rightarrow> False)
      | _ \<Rightarrow> False)"

text \<open>Concrete file systems for the examples.\<close>

definition demo_lines :: "string list" where
  "demo_lines =
     [''/b/sketch/a.cpp.o: '' @ [CHR 0x5C],
      '' /s/a.cpp '' @ [CHR 0x5C],
      '' /s/my'' @ [CHR 0x5C] @ '' lib/a.h'',
      '''']"

definition demo_env :: "time \<Rightarrow> string list \<Rightarrow> os_env" where
  "demo_env depTime rows0 =
     \<lparr>Stat = (\<lambda>p. if p = ''/s/a.cpp'' then Found 5
                  else if p = ''/b/sketch/a.cpp.o'' then Found 10
                  else if p = ''/b/sketch/a.cpp.d'' then Found depTime
                  else if p = ''/s/my lib/a.h'' then Found 2
                  else NotExist),
      ReadFileAsLines = (\<lambda>p. if p = ''/b/sketch/a.cpp.d'' then Some rows0 else None),
      Clean = (\<lambda>p. p)\<rparr>"

section \<open>Property maps and recipes\<close>

text \<open>
  \<open>properties.Map\<close> (module go-properties-orderedmap) is a map from keys to strings
  that remembers the order in which the keys were set. The model is the list of its
  key/value pairs in that order; \<open>wf_Map\<close> says that no key occurs twice, which holds
  for every map built with \<open>Set\<close>. \<open>Get\<close> of a missing key is the empty string;
  \<open>Set\<close> removes the key if present and appends the pair at the end.
\<close>

type_synonym properties_Map = "(string \<times> string) list"

definition wf_Map :: "properties_Map \<Rightarrow> bool" where
  "wf_Map m = distinct (map fst m)"

definition Keys :: "properties_Map \<Rightarrow> string list" where
  "Keys m = map fst m"

definition Get :: "properties_Map \<Rightarrow> string \<Rightarrow> string" where
  "Get m key = (case map_of m key of None \<Rightarrow> '''' | Some v \<Rightarrow> v)"

definition Set :: "properties_Map \<Rightarrow> string \<Rightarrow> string \<Rightarrow> properties_Map" where
  "Set m key v = filter (\<lambda>kv. fst kv \<noteq> key) m @ [(key, v)]"

definition Clone :: "properties_Map \<Rightarrow> properties_Map" where
  "Clone m = m"

subsection \<open>\<open>ExpandSysprogsExtensionProperties\<close> (package builder_utils, unnamed/part_004)\<close>

definition ExpandSysprogsExtensionProperties :: "properties_Map \<Rightarrow> properties_Map" where
  "ExpandSysprogsExtensionProperties properties =
     (let result = Clone properties;
          result = Set result ''compiler.c.flags''
                     (Get result ''compiler.c.flags'' @ '' ''
                        @ Get result ''com.sysprogs.extraflags'');
          result = Set result ''compiler.cpp.flags''
                     (Get result ''compiler.cpp.flags'' @ '' ''
                        @ Get result ''com.sysprogs.extraflags'')
      in result)"


subsection \<open>Recipes by prefix and suffix (package builder, unnamed/part_004)\<close>















section \<open>The name of the cached core archive (package phases, legacy/builder/container_add_prototypes.go)\<close>

text \<open>
  \<open>utils.MD5Sum\<close> is \<open>hex.EncodeToString\<close> of \<open>md5.Sum\<close>. The digest function is
  an input of the model; its result type \<open>[16]byte\<close> has exactly 16 bytes, so the model
  cuts or pads (with zero bytes) what the input function returns to that length.
\<close>

definition hextable :: string where
  "hextable = ''0123456789abcdef''"

definition hex_byte :: "char \<Rightarrow> string" where
  "hex_byte c = [hextable ! (of_char c div 16), hextable ! (of_char c mod 16)]"

definition hex_EncodeToString :: "string \<Rightarrow> string" where
  "hex_EncodeToString src = concat (map hex_byte src)"

record core_env =
  md5_Sum :: "string \<Rightarrow> string"
  Abs :: "path \<Rightarrow> path option"

definition MD5Sum :: "core_env \<Rightarrow> string \<Rightarrow> string" where
  "MD5Sum env data =
     (let md5sumBytes = take 16 (md5_Sum env data @ replicate 16 (CHR 0x00))
      in hex_EncodeToString md5sumBytes)"

text \<open>\<open>strings.Replace(s, old, new, -1)\<close> for one-byte \<open>old\<close> and \<open>new\<close>.\<close>

definition Replace1 :: "string \<Rightarrow> char \<Rightarrow> char \<Rightarrow> string" where
  "Replace1 s old new = map (\<lambda>c. if c = old then new else c) s"

definition fqbnToUnderscore :: "string \<Rightarrow> string" where
  "fqbnToUnderscore fqbn = Replace1 (Replace1 fqbn (CHR '':'') (CHR ''_'')) (CHR ''='') (CHR ''_'')"

text \<open>The core folder after \<open>coreFolder.Abs()\<close>: unchanged when \<open>Abs\<close> fails.\<close>

definition absCoreFolder :: "core_env \<Rightarrow> path \<Rightarrow> path" where
  "absCoreFolder env coreFolder =
     (case Abs env coreFolder of Some a \<Rightarrow> a | None \<Rightarrow> coreFolder)"

definition GetCachedCoreArchiveFileName :: "core_env \<Rightarrow> string \<Rightarrow> string \<Rightarrow> path \<Rightarrow> string" where
  "GetCachedCoreArchiveFileName env fqbn optimizationFlags coreFolder =
     (let hash = MD5Sum env (absCoreFolder env coreFolder @ optimizationFlags);
          realName = ''core_'' @ fqbnToUnderscore fqbn @ ''_'' @ hash @ ''.a''
      in if length realName > 100
         then ''core_'' @ MD5Sum env (fqbnToUnderscore fqbn @ ''_'' @ hash) @ ''.a''
         else realName)"

text \<open>
  A stand-in digest for concrete runs (the first 16 bytes of the data, reversed); the
  examples compare names whose digests are taken of the same data.
\<close>

definition demo_core_env :: core_env where
  "demo_core_env = \<lparr>md5_Sum = (\<lambda>data. rev (take 16 data)), Abs = (\<lambda>p. Some p)\<rparr>"

section \<open>Include discovery for one source file (\<open>findIncludesUntilDone\<close>)\<close>

text \<open>The fields of \<open>libraries.Library\<close> that the discovery reads.\<close>

record library =
  LibName :: string
  SourceDir :: path
  UtilityDir :: "path option"
  Precompiled :: bool
  PrecompiledWithSources :: bool

text \<open>
  The origin of a source file is an interface value that holds a pointer, to the sketch
  or to a library, and two origins are equal when they hold the same pointer. The model
  keeps the address the pointer holds; the library object at an address is read through
  \<open>LibraryAt\<close> of the environment (the objects do not change during discovery).
\<close>

type_synonym addr = nat

datatype origin = SketchOrigin addr | LibraryOrigin addr

record source_file =
  Origin :: origin
  RelativePath :: path

text \<open>
  The outcome of one preprocessor run: success; an \<open>exec.ExitError\<close> together with
  the captured standard error; or anything else (another kind of error, or no captured
  output).
\<close>

datatype preproc_result = PreprocOk | PreprocExitError string | PreprocOtherError

text \<open>
  What the discovery takes from other packages: the paths of a source file, the file
  system for the up-to-date check, the preprocessor, the scan of its error output, the
  library resolver (which reads the libraries imported so far), the source directories of
  a library with their recursion flags, the listing of the source files of a folder
  (\<open>None\<close> for an error) and the construction of a source file from a path.
\<close>

record discovery_env =
  SourcePath :: "source_file \<Rightarrow> path"
  ObjectPath :: "source_file \<Rightarrow> path"
  DepfilePath :: "source_file \<Rightarrow> path"
  os :: os_env
  LibraryAt :: "addr \<Rightarrow> library"
  GCCPreprocRunnerForDiscoveringIncludes :: "path \<Rightarrow> path list \<Rightarrow> preproc_result"
  IncludesFinderWithRegExp :: "string \<Rightarrow> string"
  ResolveLibrary :: "addr list \<Rightarrow> string \<Rightarrow> addr option"
  SourceDirs :: "library \<Rightarrow> (path \<times> bool) list"
  FindFilesInFolder :: "path \<Rightarrow> bool \<Rightarrow> path list option"
  MakeSourceFile :: "origin \<Rightarrow> path \<Rightarrow> source_file option"

text \<open>
  The parts of the build context that the discovery changes, the journal, and a log of
  the preprocessor runs (source path and include folders of each).
\<close>

record discovery_state =
  IncludeFolders :: "path list"
  ImportedLibraries :: "addr list"
  CollectedSourceFiles :: "source_file list"
  journal :: includeCache
  preproc_runs :: "(path \<times> path list) list"

subsection \<open>The queue of source files (legacy/builder/types/utils.go)\<close>

definition sliceContainsSourceFile :: "source_file list \<Rightarrow> source_file \<Rightarrow> bool" where
  "sliceContainsSourceFile slice target =
     list_ex (\<lambda>elem. Origin elem = Origin target \<and> RelativePath elem = RelativePath target)
       slice"

definition Push :: "source_file list \<Rightarrow> source_file \<Rightarrow> source_file list" where
  "Push queue v = (if \<not> sliceContainsSourceFile queue v then queue @ [v] else queue)"

fun push_files ::
  "discovery_env \<Rightarrow> origin \<Rightarrow> source_file list \<Rightarrow> path list
     \<Rightarrow> source_file list \<times> error option" where
  "push_files env orig queue [] = (queue, None)"
| "push_files env orig queue (filePath # filePaths) =
     (case MakeSourceFile env orig filePath of
        None \<Rightarrow> (queue, Some MakeSourceFileError)
      | Some sourceFile \<Rightarrow> push_files env orig (Push queue sourceFile) filePaths)"

definition queueSourceFilesFromFolder ::
  "discovery_env \<Rightarrow> source_file list \<Rightarrow> origin \<Rightarrow> path \<Rightarrow> bool
     \<Rightarrow> source_file list \<times> error option" where
  "queueSourceFilesFromFolder env queue orig folder recurse =
     (case FindFilesInFolder env folder recurse of
        None \<Rightarrow> (queue, Some FindFilesError)
      | Some filePaths \<Rightarrow> push_files env orig queue filePaths)"

text \<open>
  The loop over \<open>library.SourceDirs()\<close> at the end of an iteration; the error that
  \<open>queueSourceFilesFromFolder\<close> returns is discarded there.
\<close>

definition queue_library_sources ::
  "discovery_env \<Rightarrow> addr \<Rightarrow> source_file list \<Rightarrow> source_file list" where
  "queue_library_sources env lib queue =
     fold (\<lambda>sourceDir q.
             fst (queueSourceFilesFromFolder env q (LibraryOrigin lib)
                    (fst sourceDir) (snd sourceDir)))
          (SourceDirs env (LibraryAt env lib)) queue"

subsection \<open>One iteration of the loop, and the loop\<close>

datatype 'a loop_result = Continue 'a | Return "error option" 'a

definition is_precompiled_full :: "discovery_env \<Rightarrow> source_file \<Rightarrow> bool" where
  "is_precompiled_full env sourceFile =
     (case Origin sourceFile of
        LibraryOrigin a \<Rightarrow>
          Precompiled (LibraryAt env a) \<and> PrecompiledWithSources (LibraryAt env a)
      | SketchOrigin a \<Rightarrow> False)"

definition includes_for ::
  "discovery_env \<Rightarrow> discovery_state \<Rightarrow> source_file \<Rightarrow> path list" where
  "includes_for env st sourceFile =
     IncludeFolders st @
       (case Origin sourceFile of
          LibraryOrigin a \<Rightarrow>
            (case UtilityDir (LibraryAt env a) of Some u \<Rightarrow> [u] | None \<Rightarrow> [])
        | SketchOrigin a \<Rightarrow> [])"

definition run_preproc ::
  "discovery_env \<Rightarrow> path \<Rightarrow> path list \<Rightarrow> discovery_state
     \<Rightarrow> preproc_result \<times> discovery_state" where
  "run_preproc env sourcePath includes st =
     (GCCPreprocRunnerForDiscoveringIncludes env sourcePath includes,
      st\<lparr>preproc_runs := preproc_runs st @ [(sourcePath, includes)]\<rparr>)"

text \<open>
  The second half of an iteration, from \<open>if include == ""\<close> on. \<open>from_cache\<close> says
  that the include name was read from the journal, so that no preprocessor output is at
  hand.
\<close>

definition resolve_include ::
  "discovery_env \<Rightarrow> source_file \<Rightarrow> path list \<Rightarrow> bool \<Rightarrow> string \<Rightarrow> discovery_state
     \<Rightarrow> discovery_state loop_result" where
  "resolve_include env sourceFile includes from_cache include st =
     (let sourcePath = SourcePath env sourceFile in
      if include = '''' then
        Return None (st\<lparr>journal := ExpectEntry (journal st) (Some sourcePath) '''' None\<rparr>)
      else
        (case ResolveLibrary env (ImportedLibraries st) include of
           None \<Rightarrow>
             if from_cache then
               (case run_preproc env sourcePath includes st of
                  (PreprocOk, st') \<Rightarrow> Return (Some InternalCacheError) st'
                | (_, st') \<Rightarrow> Return (Some PreprocError) st')
             else Return (Some PreprocError) st
         | Some lib \<Rightarrow>
             (let st1 = st\<lparr>ImportedLibraries := ImportedLibraries st @ [lib]\<rparr>;
                  st2 = st1\<lparr>IncludeFolders := IncludeFolders st1 @ [SourceDir (LibraryAt env lib)],
                            journal := ExpectEntry (journal st1) (Some sourcePath) include
                                       (Some (SourceDir (LibraryAt env lib)))\<rparr>
              in Continue (st2\<lparr>CollectedSourceFiles :=
                                 queue_library_sources env lib (CollectedSourceFiles st2)\<rparr>))))"

definition findIncludes_iteration ::
  "discovery_env \<Rightarrow> bool \<Rightarrow> source_file \<Rightarrow> discovery_state
     \<Rightarrow> discovery_state loop_result" where
  "findIncludes_iteration env unchanged sourceFile st =
     (let sourcePath = SourcePath env sourceFile in
      case ExpectFile (journal st) (Some sourcePath) of
        Inl e \<Rightarrow> Return (Some e) st
      | Inr cache1 \<Rightarrow>
          (let st1 = st\<lparr>journal := cache1\<rparr>;
               includes = includes_for env st1 sourceFile
           in if is_precompiled_full env sourceFile then Return None st1
              else if unchanged \<and> valid (journal st1) then
                (case Next (journal st1) of
                   Inl e \<Rightarrow> Return (Some e) st1
                 | Inr n \<Rightarrow> resolve_include env sourceFile includes True (Include n) st1)
              else
                (case run_preproc env sourcePath includes st1 of
                   (PreprocOk, st2) \<Rightarrow> resolve_include env sourceFile includes False '''' st2
                 | (PreprocOtherError, st2) \<Rightarrow> Return (Some PreprocError) st2
                 | (PreprocExitError stderr, st2) \<Rightarrow>
                     resolve_include env sourceFile includes False
                       (IncludesFinderWithRegExp env stderr) st2)))"

text \<open>
  The source's \<open>for\<close> loop has no bound; the model runs at most \<open>fuel\<close> iterations and
  returns \<open>None\<close> when they do not suffice.
\<close>

fun findIncludes_loop ::
  "nat \<Rightarrow> discovery_env \<Rightarrow> bool \<Rightarrow> source_file \<Rightarrow> discovery_state
     \<Rightarrow> (error option \<times> discovery_state) option" where
  "findIncludes_loop 0 env unchanged sourceFile st = None"
| "findIncludes_loop (Suc fuel) env unchanged sourceFile st =
     (case findIncludes_iteration env unchanged sourceFile st of
        Return res st' \<Rightarrow> Some (res, st')
      | Continue st' \<Rightarrow> findIncludes_loop fuel env unchanged sourceFile st')"

definition findIncludesUntilDone ::
  "discovery_env \<Rightarrow> nat \<Rightarrow> source_file \<Rightarrow> discovery_state
     \<Rightarrow> (error option \<times> discovery_state) option" where
  "findIncludesUntilDone env fuel sourceFile st =
     (case ObjFileIsUpToDate (os env) (SourcePath env sourceFile)
             (Some (ObjectPath env sourceFile)) (Some (DepfilePath env sourceFile)) of
        Inl e \<Rightarrow> Some (Some e, st)
      | Inr unchanged \<Rightarrow> findIncludes_loop fuel env unchanged sourceFile st)"

text \<open>
  A sketch that includes \<open>Foo.h\<close>, provided by a library with \<open>precompiled=full\<close>
  that has one source file; the library object is at address 1.
\<close>

definition demo_lib :: library where
  "demo_lib =
     \<lparr>LibName = ''Foo'', SourceDir = ''/libs/Foo/src'', UtilityDir = None,
      Precompiled = True, PrecompiledWithSources = True\<rparr>"

definition demo_sketch_file :: source_file where
  "demo_sketch_file = \<lparr>Origin = SketchOrigin 0, RelativePath = ''sketch.ino.cpp''\<rparr>"

definition demo_lib_file :: source_file where
  "demo_lib_file = \<lparr>Origin = LibraryOrigin 1, RelativePath = ''foo.cpp''\<rparr>"

definition demo_stderr :: string where
  "demo_stderr = ''sketch.ino.cpp:1:17: fatal error: Foo.h: No such file or directory''"

definition demo_discovery_env :: discovery_env where
  "demo_discovery_env =
     \<lparr>SourcePath = (\<lambda>f. case Origin f of
                            SketchOrigin a \<Rightarrow> ''/b/sketch/'' @ RelativePath f
                          | LibraryOrigin a \<Rightarrow> ''/libs/Foo/src/'' @ RelativePath f),
      ObjectPath = (\<lambda>f. ''/b/obj/'' @ RelativePath f @ ''.o''),
      DepfilePath = (\<lambda>f. ''/b/obj/'' @ RelativePath f @ ''.d''),
      os = \<lparr>Stat = (\<lambda>p. if p = ''/b/sketch/sketch.ino.cpp'' \<or> p = ''/libs/Foo/src/foo.cpp''
                         then Found 5 else NotExist),
            ReadFileAsLines = (\<lambda>p. None),
            Clean = (\<lambda>p. p)\<rparr>,
      LibraryAt = (\<lambda>a. demo_lib),
      GCCPreprocRunnerForDiscoveringIncludes =
        (\<lambda>src incs. if ''/libs/Foo/src'' \<in> set incs then PreprocOk
                     else PreprocExitError demo_stderr),
      IncludesFinderWithRegExp = (\<lambda>stderr. if stderr = demo_stderr then ''Foo.h'' else ''''),
      ResolveLibrary = (\<lambda>imported inc. if inc = ''Foo.h'' then Some 1 else None),
      SourceDirs = (\<lambda>l. [(SourceDir l, False)]),
      FindFilesInFolder = (\<lambda>dir recurse. if dir = ''/libs/Foo/src'' then Some [''foo.cpp'']
                                          else Some []),
      MakeSourceFile = (\<lambda>orig p. Some \<lparr>Origin = orig, RelativePath = p\<rparr>)\<rparr>"

definition demo_state0 :: discovery_state where
  "demo_state0 =
     \<lparr>IncludeFolders = [''/core''], ImportedLibraries = [], CollectedSourceFiles = [],
      journal = \<lparr>valid = False, next = 0,
               entries = [\<lparr>Sourcefile = None, Include = '''', Includepath = Some ''/core''\<rparr>]\<rparr>,
      preproc_runs = []\<rparr>"

definition demo_state1 :: discovery_state where
  "demo_state1 =
     \<lparr>IncludeFolders = [''/core'', ''/libs/Foo/src''], ImportedLibraries = [1],
      CollectedSourceFiles = [demo_lib_file],
      journal = \<lparr>valid = False, next = 0,
               entries =
                 [\<lparr>Sourcefile = None, Include = '''', Includepath = Some ''/core''\<rparr>,
                  \<lparr>Sourcefile = Some ''/b/sketch/sketch.ino.cpp'', Include = ''Foo.h'',
                     Includepath = Some ''/libs/Foo/src''\<rparr>,
                  \<lparr>Sourcefile = Some ''/b/sketch/sketch.ino.cpp'', Include = '''',
                     Includepath = None\<rparr>]\<rparr>,
      preproc_runs =
        [(''/b/sketch/sketch.ino.cpp'', [''/core'']),
         (''/b/sketch/sketch.ino.cpp'', [''/core'', ''/libs/Foo/src''])]\<rparr>"

definition demo_state_mid :: discovery_state where
  "demo_state_mid =
     \<lparr>IncludeFolders = [''/core'', ''/libs/Foo/src''], ImportedLibraries = [1],
      CollectedSourceFiles = [demo_lib_file],
      journal = \<lparr>valid = False, next = 0,
               entries =
                 [\<lparr>Sourcefile = None, Include = '''', Includepath = Some ''/core''\<rparr>,
                  \<lparr>Sourcefile = Some ''/b/sketch/sketch.ino.cpp'', Include = ''Foo.h'',
                     Includepath = Some ''/libs/Foo/src''\<rparr>]\<rparr>,
      preproc_runs = [(''/b/sketch/sketch.ino.cpp'', [''/core''])]\<rparr>"

section \<open>The parallel compile scheduler (\<open>compileFilesWithRecipe\<close>, unnamed/part_004)\<close>

text \<open>
  The feeder loop and the worker goroutines run concurrently. The model is an interleaving
  of their atomic steps; a schedule is the list of choices of which one moves next.
  \<^item> The feeder, at the head of its loop, reads \<open>gotError\<close> under the mutex: with an
    error recorded it leaves the loop and closes the queue, otherwise it goes on to
    \<open>queue <- source\<close> (\<open>checked\<close>).
  \<^item> The queue is unbuffered, so the send completes when a worker that is not busy
    receives the source; the source is then in flight (\<open>running\<close>).
  \<^item> A job in flight finishes: \<open>compileFileWithRecipe\<close> returns and the object file
    or the error is appended under its mutex.
  \<^item> With no source left, the feeder closes the queue.
  \<open>wg.Wait()\<close> returns once the queue is closed and no job is in flight.
  The outcome of \<open>compileFileWithRecipe\<close> on each source is an input (\<open>compile\<close>):
  an error, an object file, or \<open>None\<close> when the call does not return (it runs the
  compiler as an external process); a job whose call does not return stays in flight.
  \<open>sent_after_error\<close> counts the sources sent while an error was already recorded; the
  program has no such counter.
\<close>

record sched_state =
  pending :: "path list"
  checked :: bool
  closed :: bool
  running :: "path list"
  objectFiles :: "path list"
  errorsList :: "error list"
  sent_after_error :: nat

definition init_sched :: "path list \<Rightarrow> sched_state" where
  "init_sched sources =
     \<lparr>pending = sources, checked = False, closed = False, running = [],
      objectFiles = [], errorsList = [], sent_after_error = 0\<rparr>"

definition feeder_step :: "nat \<Rightarrow> sched_state \<Rightarrow> sched_state option" where
  "feeder_step workers st =
     (if closed st then None
      else if pending st = [] then Some (st\<lparr>closed := True\<rparr>)
      else if \<not> checked st then
        (if length (errorsList st) > 0 then Some (st\<lparr>closed := True\<rparr>)
         else Some (st\<lparr>checked := True\<rparr>))
      else if length (running st) < workers then
        Some (st\<lparr>pending := tl (pending st),
                 checked := False,
                 running := running st @ [hd (pending st)],
                 sent_after_error :=
                   sent_after_error st + (if length (errorsList st) > 0 then 1 else 0)\<rparr>)
      else None)"

definition worker_finish ::
  "(path \<Rightarrow> (error + path) option) \<Rightarrow> nat \<Rightarrow> sched_state \<Rightarrow> sched_state option" where
  "worker_finish compile i st =
     (if i < length (running st) then
        (let source = running st ! i;
             st1 = st\<lparr>running := take i (running st) @ drop (Suc i) (running st)\<rparr>
         in case compile source of
              None \<Rightarrow> None
            | Some (Inl err) \<Rightarrow> Some (st1\<lparr>errorsList := errorsList st1 @ [err]\<rparr>)
            | Some (Inr objectFile) \<Rightarrow>
                Some (st1\<lparr>objectFiles := objectFiles st1 @ [objectFile]\<rparr>))
      else None)"

datatype choice = Feeder | Finish nat

fun sched_step ::
  "(path \<Rightarrow> (error + path) option) \<Rightarrow> nat \<Rightarrow> choice \<Rightarrow> sched_state
     \<Rightarrow> sched_state option" where
  "sched_step compile workers Feeder st = feeder_step workers st"
| "sched_step compile workers (Finish i) st = worker_finish compile i st"

text \<open>\<open>None\<close>: the schedule asks for a step that cannot be taken.\<close>

fun run_schedule ::
  "(path \<Rightarrow> (error + path) option) \<Rightarrow> nat \<Rightarrow> choice list \<Rightarrow> sched_state
     \<Rightarrow> sched_state option" where
  "run_schedule compile workers [] st = Some st"
| "run_schedule compile workers (c # cs) st =
     (case sched_step compile workers c st of
        None \<Rightarrow> None
      | Some st' \<Rightarrow> run_schedule compile workers cs st')"

definition terminal :: "sched_state \<Rightarrow> bool" where
  "terminal st = (closed st \<and> running st = [])"

text \<open>The statements after \<open>wg.Wait()\<close>.\<close>

definition sched_result :: "sched_state \<Rightarrow> error + path list" where
  "sched_result st =
     (if length (errorsList st) > 0 then Inl (hd (errorsList st))
      else Inr (sort (objectFiles st)))"

definition worker_count :: "int \<Rightarrow> nat \<Rightarrow> nat" where
  "worker_count Jobs NumCPU = nat (if Jobs = 0 then int NumCPU else Jobs)"

text \<open>
  The function under a given schedule: \<open>None\<close> when the schedule cannot be followed or
  does not run to the end.
\<close>

definition compileFilesWithRecipe ::
  "(path \<Rightarrow> (error + path) option) \<Rightarrow> int \<Rightarrow> nat \<Rightarrow> path list \<Rightarrow> choice list
     \<Rightarrow> (error + path list) option" where
  "compileFilesWithRecipe compile Jobs NumCPU sources schedule =
     (if length sources = 0 then Some (Inr [])
      else
        (case run_schedule compile (worker_count Jobs NumCPU) schedule (init_sched sources) of
           None \<Rightarrow> None
         | Some st \<Rightarrow> if terminal st then Some (sched_result st) else None))"

text \<open>
  One way to go on from a state: the feeder moves while it can, otherwise the oldest job
  in flight finishes. \<open>fuel\<close> bounds the number of steps.
\<close>

fun eager_schedule ::
  "(path \<Rightarrow> (error + path) option) \<Rightarrow> nat \<Rightarrow> nat \<Rightarrow> sched_state \<Rightarrow> choice list" where
  "eager_schedule compile workers 0 st = []"
| "eager_schedule compile workers (Suc fuel) st =
     (case feeder_step workers st of
        Some st' \<Rightarrow> Feeder # eager_schedule compile workers fuel st'
      | None \<Rightarrow>
          (case worker_finish compile 0 st of
             Some st' \<Rightarrow> Finish 0 # eager_schedule compile workers fuel st'
           | None \<Rightarrow> []))"

definition sched_measure :: "sched_state \<Rightarrow> nat" where
  "sched_measure st =
     4 * length (pending st) + 2 * length (running st)
       + (if checked st then 0 else 1) + (if closed st then 0 else 1)"

text \<open>What holds in every state a schedule can reach from the initial one.\<close>

definition sched_inv ::
  "(path \<Rightarrow> (error + path) option) \<Rightarrow> path list \<Rightarrow> sched_state \<Rightarrow> bool" where
  "sched_inv compile sources st =
     (sent_after_error st \<le> 1
      \<and> (errorsList st = [] \<longrightarrow> sent_after_error st = 0)
      \<and> (checked st \<longrightarrow> sent_after_error st = 0 \<and> pending st \<noteq> [] \<and> \<not> closed st)
      \<and> (closed st \<and> errorsList st = [] \<longrightarrow> pending st = [])
      \<and> image_mset compile (mset sources) =
          image_mset compile (mset (pending st) + mset (running st))
            + image_mset (\<lambda>obj. Some (Inr obj)) (mset (objectFiles st))
            + image_mset (\<lambda>err. Some (Inl err)) (mset (errorsList st)))"

text \<open>Three sources, one worker; compiling the first one fails.\<close>

definition demo_compile :: "path \<Rightarrow> (error + path) option" where
  "demo_compile source =
     (if source = ''a.cpp'' then Some (Inl (ExecError ''a.cpp''))
      else Some (Inr (source @ ''.o'')))"

definition demo_schedule :: "choice list" where
  "demo_schedule = [Feeder, Feeder, Feeder, Finish 0, Feeder, Feeder, Finish 0]"

definition demo_sched_final :: sched_state where
  "demo_sched_final =
     \<lparr>pending = [''c.cpp''], checked = False, closed = True, running = [],
      objectFiles = [''b.cpp.o''], errorsList = [ExecError ''a.cpp''],
      sent_after_error = 1\<rparr>"

definition demo_sched_mid :: sched_state where
  "demo_sched_mid =
     \<lparr>pending = [''b.cpp'', ''c.cpp''], checked = True, closed = False, running = [],
      objectFiles = [], errorsList = [ExecError ''a.cpp''], sent_after_error = 0\<rparr>"

text \<open>Two sources, two workers; both compile.\<close>

definition demo_compile_ok :: "path \<Rightarrow> (error + path) option" where
  "demo_compile_ok source = Some (Inr (source @ ''.o''))"

definition demo_schedule_ok :: "choice list" where
  "demo_schedule_ok = [Feeder, Feeder, Feeder, Feeder, Feeder, Finish 0, Finish 0]"

definition demo_sched_ok_final :: sched_state where
  "demo_sched_ok_final =
     \<lparr>pending = [], checked = False, closed = True, running = [],
      objectFiles = [''z.cpp.o'', ''b.cpp.o''], errorsList = [], sent_after_error = 0\<rparr>"


section \<open>Properties of the journal\<close>

lemma step_cache_ok:
  assumes "cache_ok cache" and "step op cache = Inr cache'"
  shows "cache_ok cache'"
proof (cases op)
  case (OpExpectFile sf)
  with assms show ?thesis
    by (auto simp: ExpectFile_def cache_ok_def invalidate_def
        split: if_splits sum.splits)
next
  case (OpExpectEntry sf inc lp)
  with assms show ?thesis
    by (auto simp: ExpectEntry_def cache_ok_def invalidate_def Let_def split: if_splits)
next
  case OpExpectEnd
  with assms show ?thesis
    by (auto simp: ExpectEnd_def cache_ok_def invalidate_def split: if_splits)
qed

lemma step_invalid:
  assumes "\<not> valid cache"
  shows "\<exists>cache'. step op cache = Inr cache' \<and> \<not> valid cache'
           \<and> next cache' = next cache
           \<and> entries cache' = entries cache @ new_entries [op]"
  using assms
  by (cases op) (simp_all add: ExpectFile_def ExpectEntry_def ExpectEnd_def Let_def)

lemma states_invalid:
  "\<not> valid cache \<Longrightarrow> s \<in> set (states ops cache) \<Longrightarrow> \<not> valid s"
proof (induction ops arbitrary: cache)
  case Nil
  then show ?case by simp
next
  case (Cons op ops)
  from step_invalid [OF Cons.prems(1), of op]
  obtain cache' where st: "step op cache = Inr cache'" and inv: "\<not> valid cache'"
    by blast
  from Cons.prems(2) st have "s = cache \<or> s \<in> set (states ops cache')"
    by simp
  then show ?case
    using Cons.prems(1) Cons.IH [OF inv] by blast
qed

lemma states_nonempty: "states ops cache \<noteq> []"
  by (cases ops) simp_all

text \<open>
  C9. Along any sequence of journal operations, once the validity flag of the cache is
  false in some state, it is false in every later state of the run.
\<close>

theorem validity_monotone:
  "i \<le> j \<Longrightarrow> j < length (states ops cache) \<Longrightarrow> \<not> valid (states ops cache ! i)
     \<Longrightarrow> \<not> valid (states ops cache ! j)"
proof (induction ops arbitrary: cache i j)
  case Nil
  then show ?case by simp
next
  case (Cons op ops)
  show ?case
  proof (cases i)
    case 0
    with Cons.prems(3) have inv: "\<not> valid cache" by simp
    have "states (op # ops) cache ! j \<in> set (states (op # ops) cache)"
      using Cons.prems(2) nth_mem by blast
    with inv show ?thesis by (rule states_invalid)
  next
    case (Suc i')
    with Cons.prems(1) obtain j' where j: "j = Suc j'" and le: "i' \<le> j'"
      by (cases j) auto
    show ?thesis
    proof (cases "step op cache")
      case (Inl e)
      with Cons.prems(2) j show ?thesis by simp
    next
      case (Inr cache')
      with Cons.prems Suc j le Cons.IH [of i' j' cache'] show ?thesis by simp
    qed
  qed
qed

lemma demo_states_valid:
  "map valid (states demo_ops demo_start) = [True, True, True, False, False, False, False]"
  by (simp add: demo_ops_def demo_start_def demo_old_def ExpectFile_def ExpectEntry_def
      ExpectEnd_def Next_def invalidate_def Equals_def entry_String_def Let_def)

theorem validity_monotone_witness:
  "(3::nat) \<le> 6 \<and> 6 < length (states demo_ops demo_start)
     \<and> \<not> valid (states demo_ops demo_start ! 3)
     \<and> \<not> valid (states demo_ops demo_start ! 6)"
proof -
  have len: "length (states demo_ops demo_start) = 7"
    using arg_cong [OF demo_states_valid, of length] by simp
  have v3: "\<not> valid (states demo_ops demo_start ! 3)"
    using arg_cong [OF demo_states_valid, of "\<lambda>xs. xs ! 3"] len by simp
  have "\<not> valid (states demo_ops demo_start ! 6)"
    using validity_monotone [of 3 6 demo_ops demo_start] len v3 by simp
  with len v3 show ?thesis by simp
qed








section \<open>Properties of \<open>writeCache\<close>\<close>

text \<open>
  C4 as stated fails in its second half: for an invalidated journal \<open>writeCache\<close> makes a
  single \<open>WriteFile\<close> call on the cache path itself; there is no temporary file and no
  rename.
\<close>

theorem writeCache_not_temp_rename:
  "fst (writeCache demo_MarshalIndent None 7 8 demo_final ''/b/includes.cache'')
     = [WriteFile ''/b/includes.cache'' (projr (demo_MarshalIndent (entries demo_final)))]
   \<and> \<not> spec_atomic_write ''/b/includes.cache''
         (projr (demo_MarshalIndent (entries demo_final)))
         (fst (writeCache demo_MarshalIndent None 7 8 demo_final ''/b/includes.cache''))"
  by (simp add: writeCache_def demo_MarshalIndent_def demo_final_def spec_atomic_write_def)

text \<open>
  C4, amended. If the journal is still valid, \<open>writeCache\<close> makes one \<open>Chtimes\<close> call on
  the cache path, returns no error, and the contents of every file are as before. If the
  journal was invalidated and the entries serialise, it makes exactly one call, a
  \<open>WriteFile\<close> of the serialised entries directly on the cache path, after which the
  cache file holds those bytes and every other file its old contents; the error returned is
  that of \<open>WriteFile\<close>. If serialising fails, no call is made and the error is returned.
\<close>

theorem writeCache_frame:
  "(case writeCache MarshalIndent write_err now1 now2 cache path of
      (calls, err) \<Rightarrow>
        if valid cache then
          calls = [Chtimes path now1 now2] \<and> err = None \<and> fold contents_after calls fs = fs
        else
          (case MarshalIndent (entries cache) of
             Inr bytes \<Rightarrow>
               calls = [WriteFile path bytes] \<and> err = write_err
               \<and> fold contents_after calls fs = fs(path \<mapsto> bytes)
           | Inl e \<Rightarrow> calls = [] \<and> err = Some e))"
  by (simp add: writeCache_def split: sum.splits option.splits)

section \<open>Properties of \<open>ObjFileIsUpToDate\<close>\<close>

lemma demo_rows:
  "dep_rows demo_lines = [''/b/sketch/a.cpp.o:'', ''/s/a.cpp'', ''/s/my lib/a.h'']"
  by code_simp

lemma deps_not_newer_iff:
  "deps_not_newer env objTime rows \<longleftrightarrow> (\<forall>row\<in>set rows. \<exists>t. Stat env row = Found t \<and> t \<le> objTime)"
  by (induction rows) (auto split: stat_result.splits)

lemma HasSuffix_colon: "HasSuffix s '':'' \<and> take (length s - 1) s = p \<longleftrightarrow> s = p @ '':''"
proof
  assume a: "HasSuffix s '':'' \<and> take (length s - 1) s = p"
  then have d: "drop (length s - 1) s = '':''" and t: "take (length s - 1) s = p"
    by (simp_all add: HasSuffix_def)
  show "s = p @ '':''"
    using append_take_drop_id [of "length s - 1" s] unfolding d t by simp
next
  assume "s = p @ '':''"
  then show "HasSuffix s '':'' \<and> take (length s - 1) s = p" by (simp add: HasSuffix_def)
qed

text \<open>
  C1 as stated fails in both directions. In the first file system object and dependency
  file exist, the object (time 10) is not older than the source (time 5) nor than the
  listed dependencies, and the first two rows name the object and the source: the spec's
  invariant holds. The dependency file itself (time 3) is older than the source, and the
  check answers false. In the second the dependency file has no row at all, so no first
  row names the object, and the check answers true.
\<close>

theorem up_to_date_spec_counterexample:
  "ObjFileIsUpToDate (demo_env 3 demo_lines) ''/s/a.cpp'' (Some ''/b/sketch/a.cpp.o'')
       (Some ''/b/sketch/a.cpp.d'') = Inr False
   \<and> spec_up_to_date (demo_env 3 demo_lines) ''/s/a.cpp'' ''/b/sketch/a.cpp.o''
         ''/b/sketch/a.cpp.d''
   \<and> ObjFileIsUpToDate (demo_env 10 []) ''/s/a.cpp'' (Some ''/b/sketch/a.cpp.o'')
       (Some ''/b/sketch/a.cpp.d'') = Inr True
   \<and> \<not> spec_up_to_date (demo_env 10 []) ''/s/a.cpp'' ''/b/sketch/a.cpp.o''
         ''/b/sketch/a.cpp.d''"
  by code_simp

text \<open>
  C1, amended. \<open>ObjFileIsUpToDate\<close> reports the object as up to date if and only if:
  object and dependency path are given; source, object and dependency file exist; the
  source is not newer than the object and not newer than the dependency file; the
  dependency file can be read; and either it has no non-empty row, or its first row is the
  object's cleaned path followed by a colon, a second row exists and (spaces trimmed)
  equals the cleaned source path, and every row after the first exists and is not newer
  than the object.
\<close>

theorem up_to_date_iff:
  "ObjFileIsUpToDate env sourceFile objectFile0 dependencyFile0 = Inr True \<longleftrightarrow>
     (\<exists>objectFile dependencyFile sourceTime objTime depTime rows0.
        objectFile0 = Some objectFile \<and> dependencyFile0 = Some dependencyFile
        \<and> Stat env (Clean env sourceFile) = Found sourceTime
        \<and> Stat env (Clean env objectFile) = Found objTime
        \<and> Stat env (Clean env dependencyFile) = Found depTime
        \<and> sourceTime \<le> objTime \<and> sourceTime \<le> depTime
        \<and> ReadFileAsLines env (Clean env dependencyFile) = Some rows0
        \<and> (dep_rows rows0 = []
            \<or> (\<exists>second deps.
                  dep_rows rows0 = (Clean env objectFile @ '':'') # second # deps
                  \<and> Trim_spaces second = Clean env sourceFile
                  \<and> (\<forall>row\<in>set (second # deps).
                        \<exists>t. Stat env row = Found t \<and> t \<le> objTime))))"
  (is "?L \<longleftrightarrow> ?R")
proof (cases objectFile0)
  case None
  then show ?thesis by (simp add: ObjFileIsUpToDate_def)
next
  case obj: (Some objectFile)
  show ?thesis
  proof (cases dependencyFile0)
    case None
    with obj show ?thesis by (simp add: ObjFileIsUpToDate_def)
  next
    case dep: (Some dependencyFile)
    show ?thesis
    proof (cases "ReadFileAsLines env (Clean env dependencyFile)")
      case None
      with obj dep show ?thesis
        by (auto simp: ObjFileIsUpToDate_def Let_def split: stat_result.splits)
    next
      case rd: (Some rows0)
      show ?thesis
      proof (cases "dep_rows rows0")
        case Nil
        with obj dep rd show ?thesis
          by (auto simp: ObjFileIsUpToDate_def Let_def split: stat_result.splits)
      next
        case (Cons first rest)
        show ?thesis
        proof (cases rest)
          case Nil
          with obj dep rd Cons show ?thesis
            by (auto simp: ObjFileIsUpToDate_def Let_def split: stat_result.splits)
        next
          case c2: (Cons second deps)
          have hs: "(HasSuffix first '':'' \<and> take (length first - 1) first = Clean env objectFile)
               = (first = Clean env objectFile @ '':'')"
            by (rule HasSuffix_colon)
          from obj dep rd Cons c2 show ?thesis
            using hs
            by (auto simp: ObjFileIsUpToDate_def Let_def deps_not_newer_iff
                split: stat_result.splits)
        qed
      qed
    qed
  qed
qed

theorem up_to_date_iff_witness:
  "ObjFileIsUpToDate (demo_env 10 demo_lines) ''/s/a.cpp'' (Some ''/b/sketch/a.cpp.o'')
       (Some ''/b/sketch/a.cpp.d'') = Inr True
   \<and> Stat (demo_env 10 demo_lines) ''/s/a.cpp'' = Found 5
   \<and> Stat (demo_env 10 demo_lines) ''/s/my lib/a.h'' = Found 2
   \<and> Stat (demo_env 10 demo_lines) ''/b/sketch/a.cpp.o'' = Found 10"
proof -
  have "ObjFileIsUpToDate (demo_env 10 demo_lines) ''/s/a.cpp'' (Some ''/b/sketch/a.cpp.o'')
       (Some ''/b/sketch/a.cpp.d'') = Inr True"
    apply (rule iffD2 [OF up_to_date_iff])
    apply (rule exI [of _ "''/b/sketch/a.cpp.o''"])
    apply (rule exI [of _ "''/b/sketch/a.cpp.d''"])
    apply (rule exI [of _ 5])
    apply (rule exI [of _ 10])
    apply (rule exI [of _ 10])
    apply (rule exI [of _ demo_lines])
    apply (simp add: demo_rows)
    apply (simp add: demo_env_def Trim_spaces_def)
    done
  then show ?thesis by (simp add: demo_env_def)
qed

text \<open>
  C10. A dependency file whose only row is the object path followed by a colon: the
  checks on the first row pass and the source reads \<open>rows[1]\<close> of a one-element slice,
  which is an index out of range.
\<close>

theorem second_row_index_out_of_range:
  "ObjFileIsUpToDate (demo_env 10 [''/b/sketch/a.cpp.o:'']) ''/s/a.cpp''
       (Some ''/b/sketch/a.cpp.o'') (Some ''/b/sketch/a.cpp.d'') = Inl IndexOutOfRange"
  by code_simp

section \<open>Properties of the hook runner\<close>



















section \<open>Properties of \<open>ExpandSysprogsExtensionProperties\<close>\<close>

lemma map_of_filter_other:
  "k' \<noteq> k \<Longrightarrow> map_of (filter (\<lambda>kv. fst kv \<noteq> k) m) k' = map_of m k'"
  by (induction m) auto

lemma map_of_filter_same: "map_of (filter (\<lambda>kv. fst kv \<noteq> k) m) k = None"
  by (induction m) auto

lemma Get_Set: "Get (Set m k v) k' = (if k' = k then v else Get m k')"
  by (simp add: Get_def Set_def map_add_def map_of_filter_other map_of_filter_same
      split: option.splits)

lemma Keys_Set: "set (Keys (Set m k v)) = insert k (set (Keys m))"
  by (auto simp: Keys_def Set_def)

lemma wf_Set: "wf_Map m \<Longrightarrow> wf_Map (Set m k v)"
  by (auto simp: wf_Map_def Set_def distinct_map_filter)


text \<open>
  What the body does on every map: \<open>compiler.c.flags\<close> and \<open>compiler.cpp.flags\<close>
  each get their old value followed by a space and the value of the unscoped key; every
  other key keeps its value.
\<close>

lemma ExpandSysprogs_Get:
  "Get (ExpandSysprogsExtensionProperties properties) key =
     (if key = ''compiler.c.flags'' \<or> key = ''compiler.cpp.flags''
      then Get properties key @ '' '' @ Get properties ''com.sysprogs.extraflags''
      else Get properties key)
   \<and> set (Keys (ExpandSysprogsExtensionProperties properties)) =
       set (Keys properties) \<union> {''compiler.c.flags'', ''compiler.cpp.flags''}"
  by (auto simp: ExpandSysprogsExtensionProperties_def Clone_def Let_def Get_Set Keys_Set)

section \<open>Properties of the cached core archive name\<close>

lemma length_hex_byte: "length (hex_byte c) = 2"
  by (simp add: hex_byte_def)

lemma length_hex: "length (hex_EncodeToString s) = 2 * length s"
  by (induction s) (simp_all add: hex_EncodeToString_def length_hex_byte)

lemma length_MD5Sum: "length (MD5Sum env data) = 32"
  by (simp add: MD5Sum_def Let_def length_hex)

lemma short_name:
  "length (fqbnToUnderscore fqbn) \<le> 60 \<Longrightarrow>
     GetCachedCoreArchiveFileName env fqbn flags coreFolder =
       ''core_'' @ fqbnToUnderscore fqbn @ ''_''
         @ MD5Sum env (absCoreFolder env coreFolder @ flags) @ ''.a''"
  by (simp add: GetCachedCoreArchiveFileName_def Let_def length_MD5Sum)

text \<open>
  C7 as stated fails in its second half: two different board names that agree once
  \<open>:\<close> and \<open>=\<close> are replaced by \<open>_\<close> get the same archive name (the digest is
  taken of the same data on both sides).
\<close>

theorem core_archive_name_collision:
  "''esp:esp32:dev_kit:mode=qio'' \<noteq> ''esp:esp32:dev:kit_mode=qio''
   \<and> GetCachedCoreArchiveFileName demo_core_env ''esp:esp32:dev_kit:mode=qio'' ''-Os'' ''/hw/esp''
     = GetCachedCoreArchiveFileName demo_core_env ''esp:esp32:dev:kit_mode=qio'' ''-Os'' ''/hw/esp''"
  by (simp add: GetCachedCoreArchiveFileName_def fqbnToUnderscore_def Replace1_def Let_def)

text \<open>
  C7, amended. The archive name depends only on the board name with \<open>:\<close> and \<open>=\<close>
  replaced by \<open>_\<close> and on the MD5 digest of the absolute core folder path followed by
  the optimization flags: two invocations that agree on both yield the same name (the
  contents of the core folder are not an input). Conversely, for board names of at most 60
  characters (names of at most 100), equal archive names mean equal replaced board names
  and equal digests.
\<close>

theorem core_archive_name_determined:
  "(fqbnToUnderscore fqbn1 = fqbnToUnderscore fqbn2
      \<and> MD5Sum env (absCoreFolder env coreFolder1 @ flags1)
        = MD5Sum env (absCoreFolder env coreFolder2 @ flags2)
    \<longrightarrow> GetCachedCoreArchiveFileName env fqbn1 flags1 coreFolder1
        = GetCachedCoreArchiveFileName env fqbn2 flags2 coreFolder2)
   \<and> (length (fqbnToUnderscore fqbn1) \<le> 60 \<and> length (fqbnToUnderscore fqbn2) \<le> 60
      \<and> GetCachedCoreArchiveFileName env fqbn1 flags1 coreFolder1
        = GetCachedCoreArchiveFileName env fqbn2 flags2 coreFolder2
    \<longrightarrow> fqbnToUnderscore fqbn1 = fqbnToUnderscore fqbn2
      \<and> MD5Sum env (absCoreFolder env coreFolder1 @ flags1)
        = MD5Sum env (absCoreFolder env coreFolder2 @ flags2))"
proof (intro conjI impI)
  assume "fqbnToUnderscore fqbn1 = fqbnToUnderscore fqbn2
      \<and> MD5Sum env (absCoreFolder env coreFolder1 @ flags1)
        = MD5Sum env (absCoreFolder env coreFolder2 @ flags2)"
  then have u: "fqbnToUnderscore fqbn1 = fqbnToUnderscore fqbn2"
    and h: "MD5Sum env (absCoreFolder env coreFolder1 @ flags1)
        = MD5Sum env (absCoreFolder env coreFolder2 @ flags2)"
    by simp_all
  show "GetCachedCoreArchiveFileName env fqbn1 flags1 coreFolder1
        = GetCachedCoreArchiveFileName env fqbn2 flags2 coreFolder2"
    unfolding GetCachedCoreArchiveFileName_def u h by (rule refl)
next
  let ?u1 = "fqbnToUnderscore fqbn1" and ?u2 = "fqbnToUnderscore fqbn2"
  let ?h1 = "MD5Sum env (absCoreFolder env coreFolder1 @ flags1)"
  let ?h2 = "MD5Sum env (absCoreFolder env coreFolder2 @ flags2)"
  assume a: "length ?u1 \<le> 60 \<and> length ?u2 \<le> 60
      \<and> GetCachedCoreArchiveFileName env fqbn1 flags1 coreFolder1
        = GetCachedCoreArchiveFileName env fqbn2 flags2 coreFolder2"
  then have l1: "length ?u1 \<le> 60" and l2: "length ?u2 \<le> 60"
    and eq: "GetCachedCoreArchiveFileName env fqbn1 flags1 coreFolder1
        = GetCachedCoreArchiveFileName env fqbn2 flags2 coreFolder2"
    by simp_all
  have "''core_'' @ ?u1 @ ''_'' @ ?h1 @ ''.a'' = ''core_'' @ ?u2 @ ''_'' @ ?h2 @ ''.a''"
    using eq unfolding short_name [OF l1] short_name [OF l2] .
  then have e: "?u1 @ ''_'' @ ?h1 @ ''.a'' = ?u2 @ ''_'' @ ?h2 @ ''.a''"
    by simp
  then have "length (?u1 @ ''_'' @ ?h1 @ ''.a'') = length (?u2 @ ''_'' @ ?h2 @ ''.a'')"
    by (rule arg_cong)
  then have "length ?u1 = length ?u2" by (simp add: length_MD5Sum)
  with e have "?u1 = ?u2 \<and> ''_'' @ ?h1 @ ''.a'' = ''_'' @ ?h2 @ ''.a''"
    using append_eq_append_conv [of ?u1 ?u2 "''_'' @ ?h1 @ ''.a''" "''_'' @ ?h2 @ ''.a''"]
    by blast
  then show "?u1 = ?u2" "?h1 = ?h2" by simp_all
qed

theorem core_archive_name_determined_witness:
  "fqbnToUnderscore ''esp:esp32:dev_kit:mode=qio'' = fqbnToUnderscore ''esp:esp32:dev:kit_mode=qio''
   \<and> MD5Sum demo_core_env (absCoreFolder demo_core_env ''/hw/esp'' @ ''-Os'')
     = MD5Sum demo_core_env (absCoreFolder demo_core_env ''/hw/esp-'' @ ''Os'')
   \<and> length (fqbnToUnderscore ''esp:esp32:dev_kit:mode=qio'') \<le> 60
   \<and> length (fqbnToUnderscore ''esp:esp32:dev:kit_mode=qio'') \<le> 60
   \<and> GetCachedCoreArchiveFileName demo_core_env ''esp:esp32:dev_kit:mode=qio'' ''-Os'' ''/hw/esp''
     = GetCachedCoreArchiveFileName demo_core_env ''esp:esp32:dev:kit_mode=qio'' ''Os'' ''/hw/esp-''"
proof -
  have u: "fqbnToUnderscore ''esp:esp32:dev_kit:mode=qio''
      = fqbnToUnderscore ''esp:esp32:dev:kit_mode=qio''"
    by (simp add: fqbnToUnderscore_def Replace1_def)
  have h: "MD5Sum demo_core_env (absCoreFolder demo_core_env ''/hw/esp'' @ ''-Os'')
     = MD5Sum demo_core_env (absCoreFolder demo_core_env ''/hw/esp-'' @ ''Os'')"
    by (simp add: absCoreFolder_def demo_core_env_def)
  have l1: "length (fqbnToUnderscore ''esp:esp32:dev_kit:mode=qio'') \<le> 60"
    by (simp add: fqbnToUnderscore_def Replace1_def)
  have l2: "length (fqbnToUnderscore ''esp:esp32:dev:kit_mode=qio'') \<le> 60"
    by (simp add: fqbnToUnderscore_def Replace1_def)
  note t = core_archive_name_determined [of "''esp:esp32:dev_kit:mode=qio''"
      "''esp:esp32:dev:kit_mode=qio''" demo_core_env "''/hw/esp''" "''-Os''" "''/hw/esp-''" "''Os''"]
  from t [THEN conjunct1] u h
  have n: "GetCachedCoreArchiveFileName demo_core_env ''esp:esp32:dev_kit:mode=qio'' ''-Os'' ''/hw/esp''
     = GetCachedCoreArchiveFileName demo_core_env ''esp:esp32:dev:kit_mode=qio'' ''Os'' ''/hw/esp-''"
    by blast
  from u h l1 l2 n show ?thesis by (intro conjI)
qed

section \<open>Properties of the include discovery\<close>

text \<open>
  The queue tells origins apart by the pointer they hold: source files with the same
  relative path whose origins are different objects are both kept, whatever the fields of
  the objects are.
\<close>

lemma Push_by_identity:
  "Origin v \<noteq> Origin w \<Longrightarrow> Push [v] w = [v, w]"
  by (simp add: Push_def sliceContainsSourceFile_def)

lemma resolve_include_Continue:
  assumes "resolve_include env sourceFile incs from_cache inc st = Continue st'"
  shows "\<exists>lib. ResolveLibrary env (ImportedLibraries st) inc = Some lib
           \<and> ImportedLibraries st' = ImportedLibraries st @ [lib]
           \<and> IncludeFolders st' = IncludeFolders st @ [SourceDir (LibraryAt env lib)]
           \<and> journal st' =
               ExpectEntry (journal st) (Some (SourcePath env sourceFile)) inc
                 (Some (SourceDir (LibraryAt env lib)))
           \<and> CollectedSourceFiles st' =
               queue_library_sources env lib (CollectedSourceFiles st)
           \<and> preproc_runs st' = preproc_runs st"
  using assms
  by (auto simp: resolve_include_def Let_def run_preproc_def
      split: if_splits option.splits preproc_result.splits prod.splits)

lemma resolve_include_resolved:
  assumes "inc \<noteq> ''''" and "ResolveLibrary env (ImportedLibraries st) inc = Some lib"
  shows "resolve_include env sourceFile incs from_cache inc st =
           Continue (st\<lparr>ImportedLibraries := ImportedLibraries st @ [lib],
                        IncludeFolders := IncludeFolders st @ [SourceDir (LibraryAt env lib)],
                        journal := ExpectEntry (journal st) (Some (SourcePath env sourceFile))
                                     inc (Some (SourceDir (LibraryAt env lib))),
                        CollectedSourceFiles :=
                          queue_library_sources env lib (CollectedSourceFiles st)\<rparr>)"
  using assms by (simp add: resolve_include_def Let_def)

lemma ExpectFile_entries:
  "ExpectFile c sf = Inr c' \<Longrightarrow> entries c' = take (length (entries c')) (entries c)"
  by (auto simp: ExpectFile_def invalidate_def split: if_splits sum.splits)

lemma ExpectEntry_records:
  "if valid (ExpectEntry c sf inc lp)
   then next (ExpectEntry c sf inc lp) = next c + 1
        \<and> entries (ExpectEntry c sf inc lp) = entries c
        \<and> next c < length (entries c)
        \<and> Equals (entries c ! next c) \<lparr>Sourcefile = sf, Include = inc, Includepath = lp\<rparr>
   else last (entries (ExpectEntry c sf inc lp))
          = \<lparr>Sourcefile = sf, Include = inc, Includepath = lp\<rparr>"
  by (simp add: ExpectEntry_def Let_def invalidate_def)

lemma Push_contains: "sliceContainsSourceFile (Push q v) v"
  by (simp add: Push_def sliceContainsSourceFile_def list_ex_iff)

lemma Push_mono: "sliceContainsSourceFile q x \<Longrightarrow> sliceContainsSourceFile (Push q v) x"
  by (auto simp: Push_def sliceContainsSourceFile_def list_ex_iff)

lemma Push_prefix: "take (length q) (Push q v) = q"
  by (simp add: Push_def)

lemma push_files_mono:
  "sliceContainsSourceFile q x \<Longrightarrow> sliceContainsSourceFile (fst (push_files env orig q fs)) x"
  by (induction fs arbitrary: q) (auto split: option.splits intro: Push_mono)

lemma push_files_prefix: "take (length q) (fst (push_files env orig q fs)) = q"
proof (induction fs arbitrary: q)
  case Nil
  then show ?case by simp
next
  case (Cons f fs)
  show ?case
  proof (cases "MakeSourceFile env orig f")
    case None
    then show ?thesis by simp
  next
    case (Some sf)
    have "take (length q) (fst (push_files env orig (Push q sf) fs))
        = take (length q) (take (length (Push q sf)) (fst (push_files env orig (Push q sf) fs)))"
      by (simp add: Push_def min_def)
    also have "\<dots> = take (length q) (Push q sf)" by (simp only: Cons.IH)
    also have "\<dots> = q" by (rule Push_prefix)
    finally show ?thesis using Some by simp
  qed
qed

lemma push_files_all:
  assumes "\<forall>f\<in>set fs. MakeSourceFile env orig f \<noteq> None"
  shows "\<forall>f\<in>set fs.
           sliceContainsSourceFile (fst (push_files env orig q fs))
             (the (MakeSourceFile env orig f))"
  using assms
proof (induction fs arbitrary: q)
  case Nil
  then show ?case by simp
next
  case (Cons f fs)
  then obtain sf where sf: "MakeSourceFile env orig f = Some sf" by auto
  have "sliceContainsSourceFile (Push q sf) sf" by (rule Push_contains)
  then have "sliceContainsSourceFile (fst (push_files env orig (Push q sf) fs)) sf"
    by (rule push_files_mono)
  moreover from Cons have "\<forall>g\<in>set fs.
           sliceContainsSourceFile (fst (push_files env orig (Push q sf) fs))
             (the (MakeSourceFile env orig g))"
    by simp
  ultimately show ?case using sf by simp
qed

lemma queue_folder_mono:
  "sliceContainsSourceFile q x \<Longrightarrow>
     sliceContainsSourceFile (fst (queueSourceFilesFromFolder env q orig dir recurse)) x"
  by (simp add: queueSourceFilesFromFolder_def push_files_mono split: option.splits)

lemma queue_folder_prefix:
  "take (length q) (fst (queueSourceFilesFromFolder env q orig dir recurse)) = q"
  by (simp add: queueSourceFilesFromFolder_def push_files_prefix split: option.splits)

lemma fold_queue_mono:
  "sliceContainsSourceFile q x \<Longrightarrow>
     sliceContainsSourceFile
       (fold (\<lambda>sourceDir q. fst (queueSourceFilesFromFolder env q orig
                                   (fst sourceDir) (snd sourceDir))) dirs q) x"
  by (induction dirs arbitrary: q) (simp_all add: queue_folder_mono)

lemma fold_queue_prefix:
  "take (length q)
     (fold (\<lambda>sourceDir q. fst (queueSourceFilesFromFolder env q orig
                                 (fst sourceDir) (snd sourceDir))) dirs q) = q"
proof (induction dirs arbitrary: q)
  case Nil
  then show ?case by simp
next
  case (Cons d dirs)
  let ?q1 = "fst (queueSourceFilesFromFolder env q orig (fst d) (snd d))"
  let ?f = "fold (\<lambda>sourceDir q. fst (queueSourceFilesFromFolder env q orig
                                 (fst sourceDir) (snd sourceDir))) dirs ?q1"
  have le: "length q \<le> length ?q1"
    using queue_folder_prefix [of q env orig "fst d" "snd d"]
    by (metis length_take min.cobounded1 min.commute nat_le_linear take_all)
  have "take (length q) ?f = take (length q) (take (length ?q1) ?f)"
    using le by (simp add: min_def)
  also have "\<dots> = take (length q) ?q1" by (simp only: Cons.IH)
  also have "\<dots> = q" by (rule queue_folder_prefix)
  finally show ?case by simp
qed

lemma fold_queue_all:
  assumes "(dir, recurse) \<in> set dirs"
    and "FindFilesInFolder env dir recurse = Some files"
    and "\<forall>f\<in>set files. MakeSourceFile env orig f \<noteq> None"
  shows "\<forall>f\<in>set files.
           sliceContainsSourceFile
             (fold (\<lambda>sourceDir q. fst (queueSourceFilesFromFolder env q orig
                                         (fst sourceDir) (snd sourceDir))) dirs q)
             (the (MakeSourceFile env orig f))"
  using assms(1)
proof (induction dirs arbitrary: q)
  case Nil
  then show ?case by simp
next
  case (Cons d dirs)
  show ?case
  proof (cases "d = (dir, recurse)")
    case True
    have "\<forall>f\<in>set files.
        sliceContainsSourceFile (fst (queueSourceFilesFromFolder env q orig dir recurse))
          (the (MakeSourceFile env orig f))"
      using push_files_all [OF assms(3), of q] assms(2)
      by (simp add: queueSourceFilesFromFolder_def)
    then show ?thesis using True by (simp add: fold_queue_mono)
  next
    case False
    with Cons show ?thesis by simp
  qed
qed

lemma queue_library_sources_all:
  assumes "(dir, recurse) \<in> set (SourceDirs env (LibraryAt env lib))"
    and "FindFilesInFolder env dir recurse = Some files"
    and "\<forall>f\<in>set files. MakeSourceFile env (LibraryOrigin lib) f \<noteq> None"
  shows "\<forall>f\<in>set files.
           sliceContainsSourceFile (queue_library_sources env lib q)
             (the (MakeSourceFile env (LibraryOrigin lib) f))"
  unfolding queue_library_sources_def by (rule fold_queue_all [OF assms])

lemma queue_library_sources_prefix: "take (length q) (queue_library_sources env lib q) = q"
  unfolding queue_library_sources_def by (rule fold_queue_prefix)

lemma iteration_resolved:
  assumes np: "\<not> is_precompiled_full env sourceFile"
    and ef: "ExpectFile (journal st) (Some (SourcePath env sourceFile)) = Inr cache1"
    and rl: "ResolveLibrary env (ImportedLibraries st) inc = Some lib"
    and ne: "inc \<noteq> ''''"
    and src: "(unchanged \<and> valid cache1 \<and> next cache1 < length (entries cache1)
                \<and> Include (entries cache1 ! next cache1) = inc)
              \<or> (\<not> (unchanged \<and> valid cache1)
                 \<and> GCCPreprocRunnerForDiscoveringIncludes env (SourcePath env sourceFile)
                      (includes_for env (st\<lparr>journal := cache1\<rparr>) sourceFile)
                    = PreprocExitError stderr
                 \<and> IncludesFinderWithRegExp env stderr = inc)"
  shows "\<exists>st'. findIncludes_iteration env unchanged sourceFile st = Continue st'
           \<and> ImportedLibraries st' = ImportedLibraries st @ [lib]
           \<and> IncludeFolders st' = IncludeFolders st @ [SourceDir (LibraryAt env lib)]
           \<and> journal st' =
               ExpectEntry cache1 (Some (SourcePath env sourceFile)) inc
                 (Some (SourceDir (LibraryAt env lib)))
           \<and> CollectedSourceFiles st' =
               queue_library_sources env lib (CollectedSourceFiles st)"
  using src
proof
  assume a: "unchanged \<and> valid cache1 \<and> next cache1 < length (entries cache1)
                \<and> Include (entries cache1 ! next cache1) = inc"
  let ?st1 = "st\<lparr>journal := cache1\<rparr>"
  have rl1: "ResolveLibrary env (ImportedLibraries ?st1) inc = Some lib" using rl by simp
  have "findIncludes_iteration env unchanged sourceFile st =
          resolve_include env sourceFile (includes_for env ?st1 sourceFile) True inc ?st1"
    using np ef a by (simp add: findIncludes_iteration_def Let_def Next_def)
  then show ?thesis
    unfolding resolve_include_resolved [OF ne rl1] by simp
next
  assume b: "\<not> (unchanged \<and> valid cache1)
                 \<and> GCCPreprocRunnerForDiscoveringIncludes env (SourcePath env sourceFile)
                      (includes_for env (st\<lparr>journal := cache1\<rparr>) sourceFile)
                    = PreprocExitError stderr
                 \<and> IncludesFinderWithRegExp env stderr = inc"
  let ?st1 = "st\<lparr>journal := cache1\<rparr>"
  let ?st2 = "?st1\<lparr>preproc_runs := preproc_runs ?st1
                 @ [(SourcePath env sourceFile, includes_for env ?st1 sourceFile)]\<rparr>"
  have rl2: "ResolveLibrary env (ImportedLibraries ?st2) inc = Some lib" using rl by simp
  have "findIncludes_iteration env unchanged sourceFile st =
          resolve_include env sourceFile (includes_for env ?st1 sourceFile) False inc ?st2"
    using np ef b by (auto simp: findIncludes_iteration_def Let_def run_preproc_def)
  then show ?thesis
    unfolding resolve_include_resolved [OF ne rl2] by simp
qed

text \<open>
  C6 as stated fails. Scanning the sketch resolves \<open>Foo.h\<close> to a library with
  \<open>precompiled=full\<close>: the library's source file is put on the queue, and the journal
  entry for the library carries its source directory as include path.
\<close>

theorem precompiled_full_sources_enqueued:
  "findIncludesUntilDone demo_discovery_env 5 demo_sketch_file demo_state0
     = Some (None, demo_state1)
   \<and> CollectedSourceFiles demo_state1 = [demo_lib_file]
   \<and> Origin demo_lib_file = LibraryOrigin 1
   \<and> Precompiled (LibraryAt demo_discovery_env 1)
   \<and> PrecompiledWithSources (LibraryAt demo_discovery_env 1)
   \<and> map Includepath (entries (journal demo_state1))
       = [Some ''/core'', Some ''/libs/Foo/src'', None]"
  by code_simp

text \<open>
  C6, amended. The check for \<open>precompiled=full\<close> is made when a source file comes up for
  scanning, not when its library is resolved.
  \<^item> When a source file of a library with \<open>precompiled=full\<close> comes up for scanning,
    \<open>findIncludesUntilDone\<close> returns at once with no error: include folders, imported
    libraries, the queue and the log of preprocessor runs are as before, and the journal
    has only gone through \<open>ExpectFile\<close>, which appends nothing.
  \<^item> Whenever an iteration goes on to the next one, a library was resolved: it is
    appended to the imported libraries, its source directory is appended to the include
    folders and recorded as include path in the journal, and the source files of its
    source directories are pushed on the queue.
  \<^item> Conversely, when the scanned file is not of a library with \<open>precompiled=full\<close>, and
    the include name, read from a valid journal of an unchanged file or otherwise found
    in the error output of the preprocessor, is not empty and resolves to a library
    (precompiled or not), the iteration goes on: the library is appended to the imported
    libraries, its source directory is appended to the include folders, the journal
    records the source file, the include name and the source directory of the library
    (a valid journal had that entry at its position and moves past it, an invalid one has
    it as its last entry), the queue keeps what it had in front, and for each source
    directory of the library whose listing succeeds and whose files all make source
    files, every one of these source files is on the queue.
\<close>

theorem precompiled_full_skipped_when_scanned:
  "(is_precompiled_full env sourceFile
      \<and> ObjFileIsUpToDate (os env) (SourcePath env sourceFile)
            (Some (ObjectPath env sourceFile)) (Some (DepfilePath env sourceFile))
          = Inr unchanged
      \<and> ExpectFile (journal st) (Some (SourcePath env sourceFile)) = Inr cache1
    \<longrightarrow> findIncludesUntilDone env (Suc fuel) sourceFile st
          = Some (None, st\<lparr>journal := cache1\<rparr>)
        \<and> entries cache1 = take (length (entries cache1)) (entries (journal st)))
   \<and> (findIncludes_iteration env unchanged2 sourceFile2 st2 = Continue st3
    \<longrightarrow> (\<exists>lib inc cache2.
           ExpectFile (journal st2) (Some (SourcePath env sourceFile2)) = Inr cache2
         \<and> ResolveLibrary env (ImportedLibraries st2) inc = Some lib
         \<and> ImportedLibraries st3 = ImportedLibraries st2 @ [lib]
         \<and> IncludeFolders st3 = IncludeFolders st2 @ [SourceDir (LibraryAt env lib)]
         \<and> journal st3 =
             ExpectEntry cache2 (Some (SourcePath env sourceFile2)) inc
               (Some (SourceDir (LibraryAt env lib)))
         \<and> CollectedSourceFiles st3 =
             queue_library_sources env lib (CollectedSourceFiles st2)))
   \<and> (\<not> is_precompiled_full env sourceFile3
      \<and> ExpectFile (journal st4) (Some (SourcePath env sourceFile3)) = Inr cache3
      \<and> ResolveLibrary env (ImportedLibraries st4) inc3 = Some lib3
      \<and> inc3 \<noteq> ''''
      \<and> ((unchanged3 \<and> valid cache3 \<and> next cache3 < length (entries cache3)
            \<and> Include (entries cache3 ! next cache3) = inc3)
          \<or> (\<not> (unchanged3 \<and> valid cache3)
             \<and> GCCPreprocRunnerForDiscoveringIncludes env (SourcePath env sourceFile3)
                  (includes_for env (st4\<lparr>journal := cache3\<rparr>) sourceFile3)
                = PreprocExitError stderr3
             \<and> IncludesFinderWithRegExp env stderr3 = inc3))
    \<longrightarrow> (\<exists>st5.
           findIncludes_iteration env unchanged3 sourceFile3 st4 = Continue st5
         \<and> ImportedLibraries st5 = ImportedLibraries st4 @ [lib3]
         \<and> IncludeFolders st5 = IncludeFolders st4 @ [SourceDir (LibraryAt env lib3)]
         \<and> (if valid (journal st5)
             then next (journal st5) = next cache3 + 1
                \<and> entries (journal st5) = entries cache3
                \<and> Equals (entries cache3 ! next cache3)
                     \<lparr>Sourcefile = Some (SourcePath env sourceFile3), Include = inc3,
                        Includepath = Some (SourceDir (LibraryAt env lib3))\<rparr>
             else last (entries (journal st5))
                    = \<lparr>Sourcefile = Some (SourcePath env sourceFile3), Include = inc3,
                         Includepath = Some (SourceDir (LibraryAt env lib3))\<rparr>)
         \<and> take (length (CollectedSourceFiles st4)) (CollectedSourceFiles st5)
             = CollectedSourceFiles st4
         \<and> (\<forall>dir recurse files.
               (dir, recurse) \<in> set (SourceDirs env (LibraryAt env lib3))
               \<and> FindFilesInFolder env dir recurse = Some files
               \<and> (\<forall>f\<in>set files. MakeSourceFile env (LibraryOrigin lib3) f \<noteq> None)
             \<longrightarrow> (\<forall>f\<in>set files.
                    sliceContainsSourceFile (CollectedSourceFiles st5)
                      (the (MakeSourceFile env (LibraryOrigin lib3) f))))))"
proof (intro conjI impI)
  assume a: "is_precompiled_full env sourceFile
      \<and> ObjFileIsUpToDate (os env) (SourcePath env sourceFile)
            (Some (ObjectPath env sourceFile)) (Some (DepfilePath env sourceFile))
          = Inr unchanged
      \<and> ExpectFile (journal st) (Some (SourcePath env sourceFile)) = Inr cache1"
  then have "findIncludes_iteration env unchanged sourceFile st
      = Return None (st\<lparr>journal := cache1\<rparr>)"
    by (simp add: findIncludes_iteration_def Let_def)
  with a show "findIncludesUntilDone env (Suc fuel) sourceFile st
          = Some (None, st\<lparr>journal := cache1\<rparr>)"
    by (simp add: findIncludesUntilDone_def)
  from a show "entries cache1 = take (length (entries cache1)) (entries (journal st))"
    using ExpectFile_entries by blast
next
  assume c: "findIncludes_iteration env unchanged2 sourceFile2 st2 = Continue st3"
  then obtain cache2 where
    ef: "ExpectFile (journal st2) (Some (SourcePath env sourceFile2)) = Inr cache2"
    by (auto simp: findIncludes_iteration_def Let_def split: sum.splits)
  from c ef obtain incs from_cache inc st' where
    r: "resolve_include env sourceFile2 incs from_cache inc st' = Continue st3"
    and s: "ImportedLibraries st' = ImportedLibraries st2"
      "IncludeFolders st' = IncludeFolders st2" "journal st' = cache2"
      "CollectedSourceFiles st' = CollectedSourceFiles st2"
    by (auto simp: findIncludes_iteration_def Let_def run_preproc_def
        split: if_splits sum.splits preproc_result.splits)
  from resolve_include_Continue [OF r] s ef
  show "\<exists>lib inc cache2.
           ExpectFile (journal st2) (Some (SourcePath env sourceFile2)) = Inr cache2
         \<and> ResolveLibrary env (ImportedLibraries st2) inc = Some lib
         \<and> ImportedLibraries st3 = ImportedLibraries st2 @ [lib]
         \<and> IncludeFolders st3 = IncludeFolders st2 @ [SourceDir (LibraryAt env lib)]
         \<and> journal st3 =
             ExpectEntry cache2 (Some (SourcePath env sourceFile2)) inc
               (Some (SourceDir (LibraryAt env lib)))
         \<and> CollectedSourceFiles st3 =
             queue_library_sources env lib (CollectedSourceFiles st2)"
    by auto
next
  let ?e = "\<lparr>Sourcefile = Some (SourcePath env sourceFile3), Include = inc3,
              Includepath = Some (SourceDir (LibraryAt env lib3))\<rparr>"
  assume h: "\<not> is_precompiled_full env sourceFile3
      \<and> ExpectFile (journal st4) (Some (SourcePath env sourceFile3)) = Inr cache3
      \<and> ResolveLibrary env (ImportedLibraries st4) inc3 = Some lib3
      \<and> inc3 \<noteq> ''''
      \<and> ((unchanged3 \<and> valid cache3 \<and> next cache3 < length (entries cache3)
            \<and> Include (entries cache3 ! next cache3) = inc3)
          \<or> (\<not> (unchanged3 \<and> valid cache3)
             \<and> GCCPreprocRunnerForDiscoveringIncludes env (SourcePath env sourceFile3)
                  (includes_for env (st4\<lparr>journal := cache3\<rparr>) sourceFile3)
                = PreprocExitError stderr3
             \<and> IncludesFinderWithRegExp env stderr3 = inc3))"
  from h have "\<exists>st'. findIncludes_iteration env unchanged3 sourceFile3 st4 = Continue st'
           \<and> ImportedLibraries st' = ImportedLibraries st4 @ [lib3]
           \<and> IncludeFolders st' = IncludeFolders st4 @ [SourceDir (LibraryAt env lib3)]
           \<and> journal st' =
               ExpectEntry cache3 (Some (SourcePath env sourceFile3)) inc3
                 (Some (SourceDir (LibraryAt env lib3)))
           \<and> CollectedSourceFiles st' =
               queue_library_sources env lib3 (CollectedSourceFiles st4)"
    by (intro iteration_resolved [where stderr = stderr3]) simp_all
  then obtain st5 where
    it: "findIncludes_iteration env unchanged3 sourceFile3 st4 = Continue st5"
    and il: "ImportedLibraries st5 = ImportedLibraries st4 @ [lib3]"
    and inf: "IncludeFolders st5 = IncludeFolders st4 @ [SourceDir (LibraryAt env lib3)]"
    and j: "journal st5 =
               ExpectEntry cache3 (Some (SourcePath env sourceFile3)) inc3
                 (Some (SourceDir (LibraryAt env lib3)))"
    and q: "CollectedSourceFiles st5 =
               queue_library_sources env lib3 (CollectedSourceFiles st4)"
    by blast
  have jr: "if valid (journal st5)
             then next (journal st5) = next cache3 + 1
                \<and> entries (journal st5) = entries cache3
                \<and> Equals (entries cache3 ! next cache3) ?e
             else last (entries (journal st5)) = ?e"
    unfolding j
    using ExpectEntry_records [of cache3 "Some (SourcePath env sourceFile3)" inc3
        "Some (SourceDir (LibraryAt env lib3))"]
    by (simp split: if_splits)
  have pf: "take (length (CollectedSourceFiles st4)) (CollectedSourceFiles st5)
             = CollectedSourceFiles st4"
    unfolding q by (rule queue_library_sources_prefix)
  have al: "\<forall>dir recurse files.
               (dir, recurse) \<in> set (SourceDirs env (LibraryAt env lib3))
               \<and> FindFilesInFolder env dir recurse = Some files
               \<and> (\<forall>f\<in>set files. MakeSourceFile env (LibraryOrigin lib3) f \<noteq> None)
             \<longrightarrow> (\<forall>f\<in>set files.
                    sliceContainsSourceFile (CollectedSourceFiles st5)
                      (the (MakeSourceFile env (LibraryOrigin lib3) f)))"
    unfolding q using queue_library_sources_all by blast
  from it il inf jr pf al
  show "\<exists>st5.
           findIncludes_iteration env unchanged3 sourceFile3 st4 = Continue st5
         \<and> ImportedLibraries st5 = ImportedLibraries st4 @ [lib3]
         \<and> IncludeFolders st5 = IncludeFolders st4 @ [SourceDir (LibraryAt env lib3)]
         \<and> (if valid (journal st5)
             then next (journal st5) = next cache3 + 1
                \<and> entries (journal st5) = entries cache3
                \<and> Equals (entries cache3 ! next cache3) ?e
             else last (entries (journal st5)) = ?e)
         \<and> take (length (CollectedSourceFiles st4)) (CollectedSourceFiles st5)
             = CollectedSourceFiles st4
         \<and> (\<forall>dir recurse files.
               (dir, recurse) \<in> set (SourceDirs env (LibraryAt env lib3))
               \<and> FindFilesInFolder env dir recurse = Some files
               \<and> (\<forall>f\<in>set files. MakeSourceFile env (LibraryOrigin lib3) f \<noteq> None)
             \<longrightarrow> (\<forall>f\<in>set files.
                    sliceContainsSourceFile (CollectedSourceFiles st5)
                      (the (MakeSourceFile env (LibraryOrigin lib3) f))))"
    by blast
qed

theorem precompiled_full_skipped_when_scanned_witness:
  "is_precompiled_full demo_discovery_env demo_lib_file
   \<and> ObjFileIsUpToDate (os demo_discovery_env) (SourcePath demo_discovery_env demo_lib_file)
         (Some (ObjectPath demo_discovery_env demo_lib_file))
         (Some (DepfilePath demo_discovery_env demo_lib_file)) = Inr False
   \<and> ExpectFile (journal demo_state1) (Some (SourcePath demo_discovery_env demo_lib_file))
       = Inr (journal demo_state1)
   \<and> findIncludesUntilDone demo_discovery_env (Suc 0) demo_lib_file demo_state1
       = Some (None, demo_state1\<lparr>journal := journal demo_state1\<rparr>)
   \<and> \<not> is_precompiled_full demo_discovery_env demo_sketch_file
   \<and> ExpectFile (journal demo_state0) (Some (SourcePath demo_discovery_env demo_sketch_file))
       = Inr (journal demo_state0)
   \<and> GCCPreprocRunnerForDiscoveringIncludes demo_discovery_env
         (SourcePath demo_discovery_env demo_sketch_file)
         (includes_for demo_discovery_env
            (demo_state0\<lparr>journal := journal demo_state0\<rparr>) demo_sketch_file)
       = PreprocExitError demo_stderr
   \<and> IncludesFinderWithRegExp demo_discovery_env demo_stderr = ''Foo.h''
   \<and> ResolveLibrary demo_discovery_env (ImportedLibraries demo_state0) ''Foo.h'' = Some 1
   \<and> findIncludes_iteration demo_discovery_env False demo_sketch_file demo_state0
       = Continue demo_state_mid
   \<and> ImportedLibraries demo_state_mid = ImportedLibraries demo_state0 @ [1]
   \<and> IncludeFolders demo_state_mid = IncludeFolders demo_state0 @ [''/libs/Foo/src'']
   \<and> last (entries (journal demo_state_mid))
       = \<lparr>Sourcefile = Some ''/b/sketch/sketch.ino.cpp'', Include = ''Foo.h'',
            Includepath = Some ''/libs/Foo/src''\<rparr>
   \<and> sliceContainsSourceFile (CollectedSourceFiles demo_state_mid) demo_lib_file
   \<and> (\<exists>lib inc cache2.
         ExpectFile (journal demo_state0) (Some (SourcePath demo_discovery_env demo_sketch_file))
           = Inr cache2
       \<and> ResolveLibrary demo_discovery_env (ImportedLibraries demo_state0) inc = Some lib
       \<and> journal demo_state_mid =
           ExpectEntry cache2 (Some (SourcePath demo_discovery_env demo_sketch_file)) inc
             (Some (SourceDir (LibraryAt demo_discovery_env lib)))
       \<and> CollectedSourceFiles demo_state_mid =
           queue_library_sources demo_discovery_env lib (CollectedSourceFiles demo_state0))"
proof -
  have p: "is_precompiled_full demo_discovery_env demo_lib_file" by code_simp
  have u: "ObjFileIsUpToDate (os demo_discovery_env)
         (SourcePath demo_discovery_env demo_lib_file)
         (Some (ObjectPath demo_discovery_env demo_lib_file))
         (Some (DepfilePath demo_discovery_env demo_lib_file)) = Inr False"
    by code_simp
  have e: "ExpectFile (journal demo_state1)
         (Some (SourcePath demo_discovery_env demo_lib_file)) = Inr (journal demo_state1)"
    by code_simp
  have np: "\<not> is_precompiled_full demo_discovery_env demo_sketch_file" by code_simp
  have e0: "ExpectFile (journal demo_state0)
         (Some (SourcePath demo_discovery_env demo_sketch_file)) = Inr (journal demo_state0)"
    by code_simp
  have g: "GCCPreprocRunnerForDiscoveringIncludes demo_discovery_env
         (SourcePath demo_discovery_env demo_sketch_file)
         (includes_for demo_discovery_env
            (demo_state0\<lparr>journal := journal demo_state0\<rparr>) demo_sketch_file)
       = PreprocExitError demo_stderr"
    by code_simp
  have f: "IncludesFinderWithRegExp demo_discovery_env demo_stderr = ''Foo.h''"
    by code_simp
  have r: "ResolveLibrary demo_discovery_env (ImportedLibraries demo_state0) ''Foo.h''
       = Some 1"
    by code_simp
  have sd: "SourceDir (LibraryAt demo_discovery_env 1) = ''/libs/Foo/src''
        \<and> SourcePath demo_discovery_env demo_sketch_file = ''/b/sketch/sketch.ino.cpp''
        \<and> (''/libs/Foo/src'', False)
            \<in> set (SourceDirs demo_discovery_env (LibraryAt demo_discovery_env 1))
        \<and> FindFilesInFolder demo_discovery_env ''/libs/Foo/src'' False = Some [''foo.cpp'']
        \<and> MakeSourceFile demo_discovery_env (LibraryOrigin 1) ''foo.cpp''
            = Some demo_lib_file
        \<and> \<not> valid (journal demo_state_mid)"
    by code_simp
  have c: "findIncludes_iteration demo_discovery_env False demo_sketch_file demo_state0
       = Continue demo_state_mid"
    by code_simp
  note t = precompiled_full_skipped_when_scanned [of demo_discovery_env demo_lib_file False
      demo_state1 "journal demo_state1" 0 False demo_sketch_file demo_state0 demo_state_mid
      demo_sketch_file demo_state0 "journal demo_state0" "''Foo.h''" 1 False demo_stderr]
  from t [THEN conjunct1] p u e
  have a: "findIncludesUntilDone demo_discovery_env (Suc 0) demo_lib_file demo_state1
       = Some (None, demo_state1\<lparr>journal := journal demo_state1\<rparr>)"
    by blast
  from t [THEN conjunct2, THEN conjunct1] c
  have b: "\<exists>lib inc cache2.
         ExpectFile (journal demo_state0) (Some (SourcePath demo_discovery_env demo_sketch_file))
           = Inr cache2
       \<and> ResolveLibrary demo_discovery_env (ImportedLibraries demo_state0) inc = Some lib
       \<and> journal demo_state_mid =
           ExpectEntry cache2 (Some (SourcePath demo_discovery_env demo_sketch_file)) inc
             (Some (SourceDir (LibraryAt demo_discovery_env lib)))
       \<and> CollectedSourceFiles demo_state_mid =
           queue_library_sources demo_discovery_env lib (CollectedSourceFiles demo_state0)"
    by blast
  have ne: "''Foo.h'' \<noteq> ''''" by simp
  from t [THEN conjunct2, THEN conjunct2] np e0 g f r ne
  obtain st5 where
    it: "findIncludes_iteration demo_discovery_env False demo_sketch_file demo_state0
           = Continue st5"
    and il: "ImportedLibraries st5 = ImportedLibraries demo_state0 @ [1]"
    and inf: "IncludeFolders st5
           = IncludeFolders demo_state0 @ [SourceDir (LibraryAt demo_discovery_env 1)]"
    and jr: "if valid (journal st5)
             then next (journal st5) = next (journal demo_state0) + 1
                \<and> entries (journal st5) = entries (journal demo_state0)
                \<and> Equals (entries (journal demo_state0) ! next (journal demo_state0))
                     \<lparr>Sourcefile = Some (SourcePath demo_discovery_env demo_sketch_file),
                        Include = ''Foo.h'',
                        Includepath = Some (SourceDir (LibraryAt demo_discovery_env 1))\<rparr>
             else last (entries (journal st5))
                    = \<lparr>Sourcefile = Some (SourcePath demo_discovery_env demo_sketch_file),
                         Include = ''Foo.h'',
                         Includepath = Some (SourceDir (LibraryAt demo_discovery_env 1))\<rparr>"
    and al: "\<forall>dir recurse files.
               (dir, recurse)
                 \<in> set (SourceDirs demo_discovery_env (LibraryAt demo_discovery_env 1))
               \<and> FindFilesInFolder demo_discovery_env dir recurse = Some files
               \<and> (\<forall>f\<in>set files.
                     MakeSourceFile demo_discovery_env (LibraryOrigin 1) f \<noteq> None)
             \<longrightarrow> (\<forall>f\<in>set files.
                    sliceContainsSourceFile (CollectedSourceFiles st5)
                      (the (MakeSourceFile demo_discovery_env (LibraryOrigin 1) f)))"
    by blast
  from it c have eq: "st5 = demo_state_mid" by simp
  from il eq have il': "ImportedLibraries demo_state_mid = ImportedLibraries demo_state0 @ [1]"
    by simp
  from inf eq sd have inf': "IncludeFolders demo_state_mid
      = IncludeFolders demo_state0 @ [''/libs/Foo/src'']"
    by simp
  from jr eq sd have jr': "last (entries (journal demo_state_mid))
       = \<lparr>Sourcefile = Some ''/b/sketch/sketch.ino.cpp'', Include = ''Foo.h'',
            Includepath = Some ''/libs/Foo/src''\<rparr>"
    by simp
  from al [rule_format, of "''/libs/Foo/src''" False "[''foo.cpp'']" "''foo.cpp''"] sd eq
  have al': "sliceContainsSourceFile (CollectedSourceFiles demo_state_mid) demo_lib_file"
    by simp
  from p u e a np e0 g f r c il' inf' jr' al' b show ?thesis by blast
qed

section \<open>Properties of the compile scheduler\<close>

lemma step_measure:
  "sched_step compile workers c st = Some st' \<Longrightarrow> sched_measure st' < sched_measure st"
  by (cases c)
     (auto simp: feeder_step_def worker_finish_def sched_measure_def Let_def
       split: if_splits sum.splits option.splits, (cases "pending st"; simp)+)

lemma run_measure:
  "run_schedule compile workers cs st = Some st'
     \<Longrightarrow> length cs + sched_measure st' \<le> sched_measure st"
proof (induction cs arbitrary: st)
  case Nil
  then show ?case by simp
next
  case (Cons c cs)
  then obtain st1 where s: "sched_step compile workers c st = Some st1"
    and r: "run_schedule compile workers cs st1 = Some st'"
    by (auto split: option.splits)
  from Cons.IH [OF r] step_measure [OF s] show ?case by simp
qed

lemma run_append:
  "run_schedule compile workers (cs1 @ cs2) st =
     (case run_schedule compile workers cs1 st of
        None \<Rightarrow> None
      | Some st1 \<Rightarrow> run_schedule compile workers cs2 st1)"
  by (induction cs1 arbitrary: st) (auto split: option.splits)

lemma run_take:
  "run_schedule compile workers cs st = Some st'
     \<Longrightarrow> \<exists>st1. run_schedule compile workers (take n cs) st = Some st1
             \<and> run_schedule compile workers (drop n cs) st1 = Some st'"
  using run_append [of compile workers "take n cs" "drop n cs" st]
  by (auto split: option.splits)

lemma terminal_final: "terminal st \<Longrightarrow> sched_step compile workers c st = None"
  by (cases c) (auto simp: terminal_def feeder_step_def worker_finish_def)

lemma step_errors:
  "sched_step compile workers c st = Some st'
     \<Longrightarrow> take (length (errorsList st)) (errorsList st') = errorsList st"
  by (cases c)
     (auto simp: feeder_step_def worker_finish_def Let_def
       split: if_splits sum.splits option.splits)

lemma step_errors_length:
  "sched_step compile workers c st = Some st'
     \<Longrightarrow> length (errorsList st) \<le> length (errorsList st')"
  by (cases c)
     (auto simp: feeder_step_def worker_finish_def Let_def
       split: if_splits sum.splits option.splits)

lemma take_take_prefix:
  assumes "take (length xs) ys = xs" and "take (length ys) zs = ys"
  shows "take (length xs) zs = xs"
proof -
  from assms(1) have "length (take (length xs) ys) = length xs" by simp
  then have l: "length xs \<le> length ys" by simp
  have "take (length xs) zs = take (length xs) (take (length ys) zs)"
    using l by (simp add: min_def)
  with assms show ?thesis by simp
qed

lemma run_errors:
  "run_schedule compile workers cs st = Some st'
     \<Longrightarrow> take (length (errorsList st)) (errorsList st') = errorsList st"
proof (induction cs arbitrary: st)
  case Nil
  then show ?case by simp
next
  case (Cons c cs)
  then obtain st1 where s: "sched_step compile workers c st = Some st1"
    and r: "run_schedule compile workers cs st1 = Some st'"
    by (auto split: option.splits)
  from step_errors [OF s] Cons.IH [OF r] show ?case by (rule take_take_prefix)
qed

lemma inv_init: "sched_inv compile sources (init_sched sources)"
  by (simp add: sched_inv_def init_sched_def)

lemma mset_remove_nth:
  "i < length xs \<Longrightarrow> mset xs = add_mset (xs ! i) (mset (take i xs @ drop (Suc i) xs))"
proof -
  assume "i < length xs"
  then have "xs = take i xs @ xs ! i # drop (Suc i) xs" by (rule id_take_nth_drop)
  then have "mset xs = mset (take i xs @ xs ! i # drop (Suc i) xs)" by simp
  then show ?thesis by simp
qed

lemma inv_feeder:
  assumes inv: "sched_inv compile sources st" and f: "feeder_step workers st = Some st'"
  shows "sched_inv compile sources st'"
proof -
  from f have nc: "\<not> closed st" by (auto simp: feeder_step_def split: if_splits)
  show ?thesis
  proof (cases "pending st")
    case Nil
    with f nc have st': "st' = st\<lparr>closed := True\<rparr>" by (simp add: feeder_step_def)
    from inv Nil show ?thesis unfolding st' sched_inv_def by simp
  next
    case (Cons s rest)
    show ?thesis
    proof (cases "checked st")
      case False
      show ?thesis
      proof (cases "errorsList st = []")
        case True
        with f nc Cons False have st': "st' = st\<lparr>checked := True\<rparr>"
          by (simp add: feeder_step_def)
        from inv Cons True nc show ?thesis unfolding st' sched_inv_def by simp
      next
        case e: False
        with f nc Cons False have st': "st' = st\<lparr>closed := True\<rparr>"
          by (simp add: feeder_step_def)
        from inv Cons e False show ?thesis unfolding st' sched_inv_def by simp
      qed
    next
      case True
      with f nc Cons have st': "st' = st\<lparr>pending := rest, checked := False,
           running := running st @ [s],
           sent_after_error := sent_after_error st + (if errorsList st = [] then 0 else 1)\<rparr>"
        by (auto simp: feeder_step_def split: if_splits)
      from inv True have z: "sent_after_error st = 0" by (simp add: sched_inv_def)
      from inv nc have c: "closed st' = False" unfolding st' by simp
      from inv Cons z nc show ?thesis unfolding st' sched_inv_def by simp
    qed
  qed
qed

lemma inv_finish:
  assumes inv: "sched_inv compile sources st" and w: "worker_finish compile i st = Some st'"
  shows "sched_inv compile sources st'"
proof -
  from w have i: "i < length (running st)"
    by (auto simp: worker_finish_def split: if_splits)
  let ?r = "take i (running st) @ drop (Suc i) (running st)"
  have m: "mset (running st) = add_mset (running st ! i) (mset ?r)"
    using i by (rule mset_remove_nth)
  from inv have ms: "image_mset compile (mset sources) =
          image_mset compile (mset (pending st) + mset (running st))
            + image_mset (\<lambda>obj. Some (Inr obj)) (mset (objectFiles st))
            + image_mset (\<lambda>err. Some (Inl err)) (mset (errorsList st))"
    by (simp add: sched_inv_def)
  from w i obtain res where res: "compile (running st ! i) = Some res"
    by (auto simp: worker_finish_def Let_def split: option.splits)
  show ?thesis
  proof (cases res)
    case (Inl err)
    with w i res have st': "st' = st\<lparr>running := ?r, errorsList := errorsList st @ [err]\<rparr>"
      by (simp add: worker_finish_def Let_def)
    have "image_mset compile (mset sources) =
          image_mset compile (mset (pending st) + mset ?r)
            + image_mset (\<lambda>obj. Some (Inr obj)) (mset (objectFiles st))
            + image_mset (\<lambda>err. Some (Inl err)) (mset (errorsList st @ [err]))"
      unfolding ms m using Inl res by simp
    with inv show ?thesis unfolding st' sched_inv_def by simp
  next
    case (Inr obj)
    with w i res have st': "st' = st\<lparr>running := ?r, objectFiles := objectFiles st @ [obj]\<rparr>"
      by (simp add: worker_finish_def Let_def)
    have "image_mset compile (mset sources) =
          image_mset compile (mset (pending st) + mset ?r)
            + image_mset (\<lambda>obj. Some (Inr obj)) (mset (objectFiles st @ [obj]))
            + image_mset (\<lambda>err. Some (Inl err)) (mset (errorsList st))"
      unfolding ms m using Inr res by simp
    with inv show ?thesis unfolding st' sched_inv_def by simp
  qed
qed

lemma inv_step:
  "sched_inv compile sources st \<Longrightarrow> sched_step compile workers c st = Some st'
     \<Longrightarrow> sched_inv compile sources st'"
  by (cases c) (auto intro: inv_feeder inv_finish)

lemma inv_run:
  "sched_inv compile sources st \<Longrightarrow> run_schedule compile workers cs st = Some st'
     \<Longrightarrow> sched_inv compile sources st'"
proof (induction cs arbitrary: st)
  case Nil
  then show ?case by simp
next
  case (Cons c cs)
  then show ?case by (auto split: option.splits dest: inv_step)
qed

lemma inv_image:
  assumes inv: "sched_inv compile sources st"
  shows "image_mset compile (mset sources) =
          image_mset compile (mset (pending st) + mset (running st))
            + image_mset (\<lambda>obj. Some (Inr obj)) (mset (objectFiles st))
            + image_mset (\<lambda>err. Some (Inl err)) (mset (errorsList st))"
  using inv by (simp add: sched_inv_def)

lemma inv_error_from_source:
  assumes inv: "sched_inv compile sources st" and e: "err \<in> set (errorsList st)"
  shows "\<exists>s\<in>set sources. compile s = Some (Inl err)"
proof -
  from e have "Some (Inl err) \<in># image_mset (\<lambda>err. Some (Inl err)) (mset (errorsList st))"
    by simp
  then have "Some (Inl err) \<in># image_mset compile (mset (pending st) + mset (running st))
            + image_mset (\<lambda>obj. Some (Inr obj)) (mset (objectFiles st))
            + image_mset (\<lambda>err. Some (Inl err)) (mset (errorsList st))"
    unfolding union_iff by (rule disjI2)
  then have "Some (Inl err) \<in># image_mset compile (mset sources)"
    unfolding inv_image [OF inv] .
  then show ?thesis by auto
qed

lemma inv_running_from_source:
  assumes inv: "sched_inv compile sources st" and r: "r \<in> set (running st)"
  shows "\<exists>s\<in>set sources. compile s = compile r"
proof -
  from r have "compile r \<in># image_mset compile (mset (pending st) + mset (running st))"
    by simp
  then have "compile r \<in># image_mset compile (mset (pending st) + mset (running st))
            + image_mset (\<lambda>obj. Some (Inr obj)) (mset (objectFiles st))
            + image_mset (\<lambda>err. Some (Inl err)) (mset (errorsList st))"
    unfolding union_iff by simp
  then have "compile r \<in># image_mset compile (mset sources)"
    unfolding inv_image [OF inv] .
  then show ?thesis by auto
qed

lemma inv_no_error:
  assumes inv: "sched_inv compile sources st"
    and ok: "\<forall>s\<in>set sources. \<exists>obj. compile s = Some (Inr obj)"
  shows "errorsList st = []"
proof (rule ccontr)
  assume "errorsList st \<noteq> []"
  then obtain err where "err \<in> set (errorsList st)" by (cases "errorsList st") auto
  from inv_error_from_source [OF inv this] ok show False by auto
qed

lemma inv_terminal_objects:
  assumes inv: "sched_inv compile sources st" and t: "terminal st"
    and e: "errorsList st = []"
  shows "image_mset compile (mset sources)
           = image_mset (\<lambda>obj. Some (Inr obj)) (mset (objectFiles st))"
proof -
  from t have r: "running st = []" and c: "closed st" by (simp_all add: terminal_def)
  from inv c e have p: "pending st = []" by (simp add: sched_inv_def)
  show ?thesis unfolding inv_image [OF inv] by (simp add: e r p)
qed

lemma inv_terminal_all_ok:
  assumes inv: "sched_inv compile sources st" and t: "terminal st"
    and e: "errorsList st = []"
  shows "\<forall>s\<in>set sources. \<exists>obj. compile s = Some (Inr obj)"
proof
  fix s assume "s \<in> set sources"
  then have "compile s \<in># image_mset compile (mset sources)" by simp
  then have "compile s \<in># image_mset (\<lambda>obj. Some (Inr obj)) (mset (objectFiles st))"
    unfolding inv_terminal_objects [OF inv t e] .
  then show "\<exists>obj. compile s = Some (Inr obj)" by auto
qed

lemma inv_all_objects:
  assumes inv: "sched_inv compile sources st" and t: "terminal st"
    and ok: "\<forall>s\<in>set sources. \<exists>obj. compile s = Some (Inr obj)"
  shows "sched_result st = Inr (sort (map (\<lambda>s. projr (the (compile s))) sources))"
proof -
  have e: "errorsList st = []" using inv ok by (rule inv_no_error)
  have "image_mset (\<lambda>x. projr (the x)) (image_mset compile (mset sources))
      = image_mset (\<lambda>x. projr (the x))
          (image_mset (\<lambda>obj. Some (Inr obj :: error + path)) (mset (objectFiles st)))"
    unfolding inv_terminal_objects [OF inv t e] ..
  then have "mset (map (\<lambda>s. projr (the (compile s))) sources) = mset (objectFiles st)"
    by (simp add: image_mset.compositionality comp_def)
  then have "sort (objectFiles st) = sort (map (\<lambda>s. projr (the (compile s))) sources)"
    by (intro properties_for_sort) simp_all
  with e show ?thesis by (simp add: sched_result_def)
qed

lemma inv_first_error:
  assumes inv: "sched_inv compile sources st" and t: "terminal st"
    and nok: "\<not> (\<forall>s\<in>set sources. \<exists>obj. compile s = Some (Inr obj))"
  shows "\<exists>s\<in>set sources. \<exists>e. compile s = Some (Inl e) \<and> errorsList st \<noteq> []
           \<and> e = hd (errorsList st) \<and> sched_result st = Inl e"
proof -
  from inv_terminal_all_ok [OF inv t] nok have ne: "errorsList st \<noteq> []" by blast
  then have "hd (errorsList st) \<in> set (errorsList st)" by simp
  from inv_error_from_source [OF inv this]
  obtain s where "s \<in> set sources" and "compile s = Some (Inl (hd (errorsList st)))"
    by blast
  with ne show ?thesis by (auto simp: sched_result_def)
qed

lemma inv_accounted:
  assumes inv: "sched_inv compile sources st" and t: "terminal st"
  shows "length (objectFiles st) + length (errorsList st) + length (pending st)
           = length sources"
proof -
  from t have r: "running st = []" by (simp add: terminal_def)
  have "size (image_mset compile (mset sources)) =
      size (image_mset compile (mset (pending st) + mset (running st))
            + image_mset (\<lambda>obj. Some (Inr obj)) (mset (objectFiles st))
            + image_mset (\<lambda>err. Some (Inl err)) (mset (errorsList st)))"
    unfolding inv_image [OF inv] ..
  then show ?thesis by (simp add: r)
qed

lemma sched_progress:
  assumes w: "1 \<le> workers" and inv: "sched_inv compile sources st"
    and ret: "\<forall>s\<in>set sources. compile s \<noteq> None"
    and f: "feeder_step workers st = None"
    and n: "worker_finish compile 0 st = None"
  shows "terminal st"
proof -
  have r: "running st = []"
  proof (rule ccontr)
    assume ne: "running st \<noteq> []"
    then have "running st ! 0 \<in> set (running st)" by simp
    from inv_running_from_source [OF inv this] ret
    have "compile (running st ! 0) \<noteq> None" by metis
    with ne n show False
      by (auto simp: worker_finish_def Let_def split: option.splits sum.splits)
  qed
  with w f have "closed st"
    by (auto simp: feeder_step_def split: if_splits)
  with r show ?thesis by (simp add: terminal_def)
qed

lemma step_enabled:
  assumes w: "1 \<le> workers" and inv: "sched_inv compile sources st"
    and ret: "\<forall>s\<in>set sources. compile s \<noteq> None"
    and nt: "\<not> terminal st"
  shows "\<exists>c st'. sched_step compile workers c st = Some st'"
proof (cases "feeder_step workers st")
  case (Some st')
  then have "sched_step compile workers Feeder st = Some st'" by simp
  then show ?thesis by blast
next
  case None
  with sched_progress [OF w inv ret] nt
  obtain st' where "worker_finish compile 0 st = Some st'" by (cases "worker_finish compile 0 st") auto
  then have "sched_step compile workers (Finish 0) st = Some st'" by simp
  then show ?thesis by blast
qed

lemma eager_schedule_terminates:
  assumes w: "1 \<le> workers" and ret: "\<forall>s\<in>set sources. compile s \<noteq> None"
  shows "sched_inv compile sources st \<Longrightarrow> sched_measure st \<le> fuel \<Longrightarrow>
     \<exists>st'. run_schedule compile workers (eager_schedule compile workers fuel st) st = Some st'
           \<and> terminal st'"
proof (induction fuel arbitrary: st)
  case 0
  then have "terminal st"
    by (auto simp: sched_measure_def terminal_def split: if_splits)
  then show ?case by simp
next
  case (Suc fuel)
  show ?case
  proof (cases "feeder_step workers st")
    case (Some st1)
    then have s: "sched_step compile workers Feeder st = Some st1" by simp
    from step_measure [OF s] Suc.prems have "sched_measure st1 \<le> fuel" by simp
    from Suc.IH [OF inv_step [OF Suc.prems(1) s] this] Some show ?thesis by simp
  next
    case None
    show ?thesis
    proof (cases "worker_finish compile 0 st")
      case (Some st1)
      then have s: "sched_step compile workers (Finish 0) st = Some st1" by simp
      from step_measure [OF s] Suc.prems have "sched_measure st1 \<le> fuel" by simp
      from Suc.IH [OF inv_step [OF Suc.prems(1) s] this] Some None show ?thesis by simp
    next
      case n2: None
      from sched_progress [OF w Suc.prems(1) ret None n2] None n2 show ?thesis by simp
    qed
  qed
qed

lemma schedule_extends:
  assumes w: "1 \<le> workers" and ret: "\<forall>s\<in>set sources. compile s \<noteq> None"
    and r: "run_schedule compile workers schedule (init_sched sources) = Some st"
  shows "\<exists>st'. run_schedule compile workers
                 (schedule @ eager_schedule compile workers (sched_measure st) st)
                 (init_sched sources) = Some st'
             \<and> terminal st'"
proof -
  have inv: "sched_inv compile sources st" using inv_init r by (rule inv_run)
  from eager_schedule_terminates [OF w ret inv, of "sched_measure st"]
  obtain st' where "run_schedule compile workers
      (eager_schedule compile workers (sched_measure st) st) st = Some st'"
    and "terminal st'" by auto
  with r show ?thesis by (simp add: run_append)
qed

lemma measure_init: "sched_measure (init_sched sources) = 4 * length sources + 2"
  by (simp add: sched_measure_def init_sched_def)

lemma demo_run_mid:
  "run_schedule demo_compile (worker_count 1 8) (take 4 demo_schedule)
     (init_sched [''a.cpp'', ''b.cpp'', ''c.cpp'']) = Some demo_sched_mid"
  by (simp add: demo_schedule_def worker_count_def init_sched_def feeder_step_def
      worker_finish_def demo_compile_def demo_sched_mid_def Let_def)

lemma demo_run_final:
  "run_schedule demo_compile (worker_count 1 8) demo_schedule
     (init_sched [''a.cpp'', ''b.cpp'', ''c.cpp'']) = Some demo_sched_final"
  by (simp add: demo_schedule_def worker_count_def init_sched_def feeder_step_def
      worker_finish_def demo_compile_def demo_sched_final_def Let_def)

lemma demo_run_ok:
  "run_schedule demo_compile_ok 2 demo_schedule_ok (init_sched [''z.cpp'', ''b.cpp''])
     = Some demo_sched_ok_final"
  by (simp add: demo_schedule_ok_def init_sched_def feeder_step_def
      worker_finish_def demo_compile_ok_def demo_sched_ok_final_def Let_def)

text \<open>
  C5 as stated fails in its first part. One worker, three sources, the first fails to
  compile: the feeder passes its error check for the second source while the first is
  still being compiled; the failure is recorded (state \<open>demo_sched_mid\<close>); then the
  worker takes the second source, which is compiled although a failure was on record.
\<close>

theorem source_sent_after_recorded_failure:
  "run_schedule demo_compile (worker_count 1 8) (take 4 demo_schedule)
     (init_sched [''a.cpp'', ''b.cpp'', ''c.cpp'']) = Some demo_sched_mid
   \<and> errorsList demo_sched_mid = [ExecError ''a.cpp'']
   \<and> pending demo_sched_mid = [''b.cpp'', ''c.cpp'']
   \<and> map_option running (sched_step demo_compile (worker_count 1 8) Feeder demo_sched_mid)
       = Some [''b.cpp'']
   \<and> compileFilesWithRecipe demo_compile 1 8 [''a.cpp'', ''b.cpp'', ''c.cpp''] demo_schedule
       = Some (Inl (ExecError ''a.cpp''))
   \<and> objectFiles demo_sched_final = [''b.cpp.o'']
   \<and> sent_after_error demo_sched_final = 1"
proof -
  have "map_option running (sched_step demo_compile (worker_count 1 8) Feeder demo_sched_mid)
       = Some [''b.cpp'']"
    by (simp add: worker_count_def feeder_step_def demo_sched_mid_def)
  moreover have "compileFilesWithRecipe demo_compile 1 8 [''a.cpp'', ''b.cpp'', ''c.cpp'']
       demo_schedule = Some (Inl (ExecError ''a.cpp''))"
    unfolding compileFilesWithRecipe_def demo_run_final
    by (simp add: terminal_def sched_result_def demo_sched_final_def)
  ultimately show ?thesis
    using demo_run_mid by (simp add: demo_sched_mid_def demo_sched_final_def)
qed

lemma compileFilesWithRecipe_Some:
  assumes "compileFilesWithRecipe compile Jobs NumCPU sources schedule = Some res"
  shows "(sources = [] \<and> res = Inr [])
         \<or> (\<exists>st. run_schedule compile (worker_count Jobs NumCPU) schedule (init_sched sources)
                    = Some st
                \<and> terminal st \<and> res = sched_result st)"
  using assms
  by (auto simp: compileFilesWithRecipe_def split: if_splits option.splits)

text \<open>
  C5, amended. For every schedule of the feeder and the workers and every state it
  reaches:
  \<^item> at most one source has been sent to the workers while a failure was already
    recorded;
  \<^item> the schedule has at most \<open>4 * length sources + 2\<close> steps;
  \<^item> the list of recorded errors only grows at its end, so the first recorded error
    stays the first, and it is the one returned;
  \<^item> when the function returns (queue closed, no job in flight), no step is left to
    take and every source is accounted for: its object file or its error is recorded, or
    it was never sent;
  \<^item> when the function returns and every source compiles, the result is the sorted list
    of all the object files; when it returns and not every source compiles, the result is
    an error, the first one recorded, and it is the error of compiling one of the
    sources, with no object list;
  \<^item> with at least one worker and compiles that all return, a state in which the
    function has not returned always has a step to take, and every schedule can be
    carried on to one under which the function returns.

  A job that finishes a failing compile records its error. Whatever the function returns
  under whatever schedule is the sorted list of all object files if every source
  compiles, and the error of a failing source otherwise.
\<close>

theorem compile_scheduler:
  "(run_schedule compile workers schedule (init_sched sources) = Some st \<longrightarrow>
      sent_after_error st \<le> 1
      \<and> length schedule + sched_measure st \<le> 4 * length sources + 2
      \<and> (run_schedule compile workers (take n schedule) (init_sched sources) = Some st_n
          \<longrightarrow> take (length (errorsList st_n)) (errorsList st) = errorsList st_n)
      \<and> (run_schedule compile workers (take n schedule) (init_sched sources) = Some st_n
          \<and> errorsList st_n \<noteq> [] \<and> terminal st
          \<longrightarrow> sched_result st = Inl (hd (errorsList st_n)))
      \<and> (terminal st \<longrightarrow>
           length (objectFiles st) + length (errorsList st) + length (pending st)
             = length sources)
      \<and> (terminal st \<longrightarrow> sched_step compile workers c st = None)
      \<and> (terminal st \<and> errorsList st \<noteq> [] \<longrightarrow>
           sched_result st = Inl (hd (errorsList st)))
      \<and> (terminal st \<and> (\<forall>s\<in>set sources. \<exists>obj. compile s = Some (Inr obj)) \<longrightarrow>
           sched_result st = Inr (sort (map (\<lambda>s. projr (the (compile s))) sources)))
      \<and> (terminal st \<and> \<not> (\<forall>s\<in>set sources. \<exists>obj. compile s = Some (Inr obj)) \<longrightarrow>
           (\<exists>s\<in>set sources. \<exists>e. compile s = Some (Inl e) \<and> errorsList st \<noteq> []
              \<and> e = hd (errorsList st) \<and> sched_result st = Inl e))
      \<and> (1 \<le> workers \<and> (\<forall>s\<in>set sources. compile s \<noteq> None) \<and> \<not> terminal st \<longrightarrow>
           (\<exists>c2 st2. sched_step compile workers c2 st = Some st2))
      \<and> (1 \<le> workers \<and> (\<forall>s\<in>set sources. compile s \<noteq> None) \<longrightarrow>
           (\<exists>rest st'. run_schedule compile workers (schedule @ rest) (init_sched sources)
                         = Some st'
                      \<and> terminal st')))
   \<and> (i < length (running st1) \<and> compile (running st1 ! i) = Some (Inl e1) \<longrightarrow>
        (\<exists>st2. sched_step compile workers (Finish i) st1 = Some st2
              \<and> errorsList st2 = errorsList st1 @ [e1]))
   \<and> (compileFilesWithRecipe compile Jobs NumCPU sources schedule3 = Some res \<longrightarrow>
        (if \<forall>s\<in>set sources. \<exists>obj. compile s = Some (Inr obj)
         then res = Inr (sort (map (\<lambda>s. projr (the (compile s))) sources))
         else \<exists>s\<in>set sources. \<exists>e. compile s = Some (Inl e) \<and> res = Inl e))
   \<and> (1 \<le> worker_count Jobs NumCPU \<and> (\<forall>s\<in>set sources. compile s \<noteq> None)
       \<and> run_schedule compile (worker_count Jobs NumCPU) schedule4 (init_sched sources)
           = Some st4 \<longrightarrow>
        (\<exists>rest res. compileFilesWithRecipe compile Jobs NumCPU sources (schedule4 @ rest)
                      = Some res))
   \<and> (1 \<le> worker_count Jobs NumCPU \<and> (\<forall>s\<in>set sources. compile s \<noteq> None) \<longrightarrow>
        (\<exists>schedule2 res.
           compileFilesWithRecipe compile Jobs NumCPU sources schedule2 = Some res))"
proof (intro conjI impI)
  assume r: "run_schedule compile workers schedule (init_sched sources) = Some st"
  have inv: "sched_inv compile sources st"
    using inv_init r by (rule inv_run)
  then show "sent_after_error st \<le> 1" by (simp add: sched_inv_def)
  from run_measure [OF r]
  show "length schedule + sched_measure st \<le> 4 * length sources + 2"
    by (simp add: measure_init)
  {
    assume a: "run_schedule compile workers (take n schedule) (init_sched sources)
        = Some st_n"
    from run_take [OF r, of n] a
    have "run_schedule compile workers (drop n schedule) st_n = Some st" by simp
    then show "take (length (errorsList st_n)) (errorsList st) = errorsList st_n"
      by (rule run_errors)
  }
  {
    assume a: "run_schedule compile workers (take n schedule) (init_sched sources)
          = Some st_n
        \<and> errorsList st_n \<noteq> [] \<and> terminal st"
    from run_take [OF r, of n] a
    have "run_schedule compile workers (drop n schedule) st_n = Some st" by simp
    then have p: "take (length (errorsList st_n)) (errorsList st) = errorsList st_n"
      by (rule run_errors)
    from a have ne: "errorsList st_n \<noteq> []" by simp
    with p have ne2: "errorsList st \<noteq> []" by auto
    from p ne have "hd (errorsList st) = hd (errorsList st_n)"
      by (metis hd_take length_greater_0_conv)
    with ne2 show "sched_result st = Inl (hd (errorsList st_n))"
      by (simp add: sched_result_def)
  }
  {
    assume "terminal st"
    with inv show "length (objectFiles st) + length (errorsList st) + length (pending st)
             = length sources" by (rule inv_accounted)
  }
  {
    assume "terminal st"
    then show "sched_step compile workers c st = None" by (rule terminal_final)
  }
  {
    assume "terminal st \<and> errorsList st \<noteq> []"
    then show "sched_result st = Inl (hd (errorsList st))" by (simp add: sched_result_def)
  }
  {
    assume "terminal st \<and> (\<forall>s\<in>set sources. \<exists>obj. compile s = Some (Inr obj))"
    with inv
    show "sched_result st = Inr (sort (map (\<lambda>s. projr (the (compile s))) sources))"
      using inv_all_objects by blast
  }
  {
    assume "terminal st \<and> \<not> (\<forall>s\<in>set sources. \<exists>obj. compile s = Some (Inr obj))"
    with inv
    show "\<exists>s\<in>set sources. \<exists>e. compile s = Some (Inl e) \<and> errorsList st \<noteq> []
              \<and> e = hd (errorsList st) \<and> sched_result st = Inl e"
      using inv_first_error by blast
  }
  {
    assume "1 \<le> workers \<and> (\<forall>s\<in>set sources. compile s \<noteq> None) \<and> \<not> terminal st"
    with inv show "\<exists>c2 st2. sched_step compile workers c2 st = Some st2"
      using step_enabled by blast
  }
  {
    assume "1 \<le> workers \<and> (\<forall>s\<in>set sources. compile s \<noteq> None)"
    with r
    show "\<exists>rest st'. run_schedule compile workers (schedule @ rest) (init_sched sources)
                         = Some st'
                      \<and> terminal st'"
      using schedule_extends by blast
  }
next
  assume "i < length (running st1) \<and> compile (running st1 ! i) = Some (Inl e1)"
  then show "\<exists>st2. sched_step compile workers (Finish i) st1 = Some st2
              \<and> errorsList st2 = errorsList st1 @ [e1]"
    by (simp add: worker_finish_def Let_def)
next
  assume a: "compileFilesWithRecipe compile Jobs NumCPU sources schedule3 = Some res"
  from compileFilesWithRecipe_Some [OF a]
  show "if \<forall>s\<in>set sources. \<exists>obj. compile s = Some (Inr obj)
         then res = Inr (sort (map (\<lambda>s. projr (the (compile s))) sources))
         else \<exists>s\<in>set sources. \<exists>e. compile s = Some (Inl e) \<and> res = Inl e"
  proof
    assume "sources = [] \<and> res = Inr []"
    then show ?thesis by simp
  next
    assume "\<exists>st. run_schedule compile (worker_count Jobs NumCPU) schedule3
                    (init_sched sources) = Some st
                \<and> terminal st \<and> res = sched_result st"
    then obtain st' where
      r: "run_schedule compile (worker_count Jobs NumCPU) schedule3 (init_sched sources)
            = Some st'"
      and t: "terminal st'" and res: "res = sched_result st'" by blast
    have inv: "sched_inv compile sources st'" using inv_init r by (rule inv_run)
    show ?thesis
    proof (cases "\<forall>s\<in>set sources. \<exists>obj. compile s = Some (Inr obj)")
      case True
      with inv_all_objects [OF inv t] res show ?thesis by simp
    next
      case False
      from inv_first_error [OF inv t False] res False show ?thesis by auto
    qed
  qed
next
  assume a: "1 \<le> worker_count Jobs NumCPU \<and> (\<forall>s\<in>set sources. compile s \<noteq> None)
       \<and> run_schedule compile (worker_count Jobs NumCPU) schedule4 (init_sched sources)
           = Some st4"
  then obtain st' where
    "run_schedule compile (worker_count Jobs NumCPU)
       (schedule4 @ eager_schedule compile (worker_count Jobs NumCPU) (sched_measure st4) st4)
       (init_sched sources) = Some st'"
    and "terminal st'"
    using schedule_extends by blast
  then have "\<exists>res. compileFilesWithRecipe compile Jobs NumCPU sources
      (schedule4 @ eager_schedule compile (worker_count Jobs NumCPU) (sched_measure st4) st4)
      = Some res"
    by (simp add: compileFilesWithRecipe_def)
  then show "\<exists>rest res. compileFilesWithRecipe compile Jobs NumCPU sources (schedule4 @ rest)
                      = Some res"
    by blast
next
  assume a: "1 \<le> worker_count Jobs NumCPU \<and> (\<forall>s\<in>set sources. compile s \<noteq> None)"
  have r0: "run_schedule compile (worker_count Jobs NumCPU) [] (init_sched sources)
      = Some (init_sched sources)" by simp
  from a r0 obtain st' where
    "run_schedule compile (worker_count Jobs NumCPU)
       ([] @ eager_schedule compile (worker_count Jobs NumCPU)
               (sched_measure (init_sched sources)) (init_sched sources))
       (init_sched sources) = Some st'"
    and "terminal st'"
    using schedule_extends by blast
  then have "\<exists>res. compileFilesWithRecipe compile Jobs NumCPU sources
      (eager_schedule compile (worker_count Jobs NumCPU)
               (sched_measure (init_sched sources)) (init_sched sources))
      = Some res"
    by (simp add: compileFilesWithRecipe_def)
  then show "\<exists>schedule2 res.
           compileFilesWithRecipe compile Jobs NumCPU sources schedule2 = Some res"
    by blast
qed

theorem compile_scheduler_witness:
  "run_schedule demo_compile (worker_count 1 8) demo_schedule
     (init_sched [''a.cpp'', ''b.cpp'', ''c.cpp'']) = Some demo_sched_final
   \<and> terminal demo_sched_final \<and> errorsList demo_sched_final \<noteq> []
   \<and> sent_after_error demo_sched_final \<le> 1
   \<and> length demo_schedule + sched_measure demo_sched_final
       \<le> 4 * length [''a.cpp'', ''b.cpp'', ''c.cpp''] + 2
   \<and> run_schedule demo_compile (worker_count 1 8) (take 4 demo_schedule)
       (init_sched [''a.cpp'', ''b.cpp'', ''c.cpp'']) = Some demo_sched_mid
   \<and> errorsList demo_sched_mid = [ExecError ''a.cpp'']
   \<and> take (length (errorsList demo_sched_mid)) (errorsList demo_sched_final)
       = errorsList demo_sched_mid
   \<and> demo_compile ''a.cpp'' = Some (Inl (ExecError ''a.cpp''))
   \<and> sched_result demo_sched_final = Inl (ExecError ''a.cpp'')
   \<and> sched_step demo_compile (worker_count 1 8) Feeder demo_sched_final = None
   \<and> 1 \<le> worker_count 1 8
   \<and> \<not> terminal demo_sched_mid
   \<and> (\<exists>c2 st2. sched_step demo_compile (worker_count 1 8) c2 demo_sched_mid = Some st2)
   \<and> (\<exists>rest st'. run_schedule demo_compile (worker_count 1 8) (take 4 demo_schedule @ rest)
                    (init_sched [''a.cpp'', ''b.cpp'', ''c.cpp'']) = Some st'
                 \<and> terminal st')
   \<and> (\<exists>st2. sched_step demo_compile (worker_count 1 8) (Finish 0)
               (demo_sched_mid\<lparr>running := [''a.cpp''], errorsList := []\<rparr>) = Some st2
            \<and> errorsList st2 = [ExecError ''a.cpp''])
   \<and> compileFilesWithRecipe demo_compile 1 8 [''a.cpp'', ''b.cpp'', ''c.cpp''] demo_schedule
       = Some (Inl (ExecError ''a.cpp''))
   \<and> (\<exists>rest res. compileFilesWithRecipe demo_compile 1 8 [''a.cpp'', ''b.cpp'', ''c.cpp'']
                    (take 4 demo_schedule @ rest) = Some res)
   \<and> run_schedule demo_compile_ok 2 demo_schedule_ok (init_sched [''z.cpp'', ''b.cpp''])
       = Some demo_sched_ok_final
   \<and> terminal demo_sched_ok_final
   \<and> sched_result demo_sched_ok_final = Inr [''b.cpp.o'', ''z.cpp.o'']"
proof -
  let ?src = "[''a.cpp'', ''b.cpp'', ''c.cpp'']"
  let ?st1 = "demo_sched_mid\<lparr>running := [''a.cpp''], errorsList := []\<rparr>"
  have t1: "terminal demo_sched_final" by (simp add: terminal_def demo_sched_final_def)
  have e1: "errorsList demo_sched_final \<noteq> []" by (simp add: demo_sched_final_def)
  have em: "errorsList demo_sched_mid = [ExecError ''a.cpp'']"
    by (simp add: demo_sched_mid_def)
  have w: "1 \<le> worker_count 1 8" by (simp add: worker_count_def)
  have nt: "\<not> terminal demo_sched_mid" by (simp add: terminal_def demo_sched_mid_def)
  have ca: "demo_compile ''a.cpp'' = Some (Inl (ExecError ''a.cpp''))"
    by (simp add: demo_compile_def)
  have ret: "\<forall>s\<in>set ?src. demo_compile s \<noteq> None" by (simp add: demo_compile_def)
  have nok: "\<not> (\<forall>s\<in>set ?src. \<exists>obj. demo_compile s = Some (Inr obj))"
    by (simp add: demo_compile_def)
  have cf: "compileFilesWithRecipe demo_compile 1 8 ?src demo_schedule
       = Some (Inl (ExecError ''a.cpp''))"
    unfolding compileFilesWithRecipe_def demo_run_final
    by (simp add: terminal_def sched_result_def demo_sched_final_def)
  note c1 = compile_scheduler [where compile = demo_compile and workers = "worker_count 1 8"
      and schedule = demo_schedule and sources = ?src and st = demo_sched_final and n = 4
      and st_n = demo_sched_mid and c = Feeder and i = 0 and ?st1.0 = ?st1
      and ?e1.0 = "ExecError ''a.cpp''" and Jobs = 1 and NumCPU = 8
      and ?schedule3.0 = demo_schedule and res = "Inl (ExecError ''a.cpp'')"
      and ?schedule4.0 = "take 4 demo_schedule" and ?st4.0 = demo_sched_mid]
  note B1 = c1 [THEN conjunct1, THEN mp, OF demo_run_final]
  note B2 = B1 [THEN conjunct2]
  note B3 = B2 [THEN conjunct2]
  note B4 = B3 [THEN conjunct2]
  note B5 = B4 [THEN conjunct2]
  note B6 = B5 [THEN conjunct2]
  note B7 = B6 [THEN conjunct2]
  note B8 = B7 [THEN conjunct2]
  note B9 = B8 [THEN conjunct2]
  note R1 = c1 [THEN conjunct2]
  note R2 = R1 [THEN conjunct2]
  note R3 = R2 [THEN conjunct2]
  have a: "sent_after_error demo_sched_final \<le> 1" by (rule B1 [THEN conjunct1])
  have b: "length demo_schedule + sched_measure demo_sched_final \<le> 4 * length ?src + 2"
    by (rule B2 [THEN conjunct1])
  have p: "take (length (errorsList demo_sched_mid)) (errorsList demo_sched_final)
       = errorsList demo_sched_mid"
    by (rule B3 [THEN conjunct1, THEN mp, OF demo_run_mid])
  have f: "sched_step demo_compile (worker_count 1 8) Feeder demo_sched_final = None"
    by (rule B6 [THEN conjunct1, THEN mp, OF t1])
  from B9 [THEN conjunct1] t1 nok
  obtain e where "e = hd (errorsList demo_sched_final)"
    and "sched_result demo_sched_final = Inl e"
    by blast
  then have res: "sched_result demo_sched_final = Inl (ExecError ''a.cpp'')"
    by (simp add: demo_sched_final_def)
  note c3 = compile_scheduler [where compile = demo_compile and workers = "worker_count 1 8"
      and schedule = "take 4 demo_schedule" and sources = ?src and st = demo_sched_mid]
  note C9 = c3 [THEN conjunct1, THEN mp, OF demo_run_mid, THEN conjunct2, THEN conjunct2,
      THEN conjunct2, THEN conjunct2, THEN conjunct2, THEN conjunct2, THEN conjunct2,
      THEN conjunct2, THEN conjunct2]
  from C9 [THEN conjunct1] w ret nt
  have en: "\<exists>c2 st2. sched_step demo_compile (worker_count 1 8) c2 demo_sched_mid = Some st2"
    by blast
  from C9 [THEN conjunct2] w ret
  have ex: "\<exists>rest st'. run_schedule demo_compile (worker_count 1 8)
                    (take 4 demo_schedule @ rest) (init_sched ?src) = Some st'
                 \<and> terminal st'"
    by blast
  have "0 < length (running ?st1) \<and> demo_compile (running ?st1 ! 0)
      = Some (Inl (ExecError ''a.cpp''))"
    by (simp add: demo_compile_def)
  with R1 [THEN conjunct1]
  have "\<exists>st2. sched_step demo_compile (worker_count 1 8) (Finish 0) ?st1 = Some st2
            \<and> errorsList st2 = errorsList ?st1 @ [ExecError ''a.cpp'']"
    by blast
  then have rec: "\<exists>st2. sched_step demo_compile (worker_count 1 8) (Finish 0) ?st1 = Some st2
            \<and> errorsList st2 = [ExecError ''a.cpp'']"
    by simp
  from R3 [THEN conjunct1] w ret demo_run_mid
  have ext: "\<exists>rest res. compileFilesWithRecipe demo_compile 1 8 ?src
                    (take 4 demo_schedule @ rest) = Some res"
    by blast
  have t2: "terminal demo_sched_ok_final" by (simp add: terminal_def demo_sched_ok_final_def)
  have ok: "\<forall>s\<in>set [''z.cpp'', ''b.cpp'']. \<exists>obj. demo_compile_ok s = Some (Inr obj)"
    by (simp add: demo_compile_ok_def)
  note c2 = compile_scheduler [where compile = demo_compile_ok and workers = 2
      and schedule = demo_schedule_ok and sources = "[''z.cpp'', ''b.cpp'']"
      and st = demo_sched_ok_final]
  note D8 = c2 [THEN conjunct1, THEN mp, OF demo_run_ok, THEN conjunct2, THEN conjunct2,
      THEN conjunct2, THEN conjunct2, THEN conjunct2, THEN conjunct2, THEN conjunct2,
      THEN conjunct1]
  from D8 t2 ok
  have "sched_result demo_sched_ok_final
      = Inr (sort (map (\<lambda>s. projr (the (demo_compile_ok s))) [''z.cpp'', ''b.cpp'']))"
    by blast
  then have r2: "sched_result demo_sched_ok_final = Inr [''b.cpp.o'', ''z.cpp.o'']"
    by (simp add: demo_compile_ok_def)
  from demo_run_final t1 e1 a b demo_run_mid em p ca res f w nt en ex rec cf ext
    demo_run_ok t2 r2
  show ?thesis by (intro conjI)
qed

end
